theory Spec2Isabelle
  imports Complex_Main "HOL-Library.Product_Lexorder"
begin

section \<open>Arrays\<close>

text \<open>
  The volumes of \<^verbatim>\<open>voxel_t-stats.py\<close> are numpy arrays with three axes.  An array is its
  shape together with its elements in row-major (C) order, the order in which
  \<^verbatim>\<open>flatten()\<close> and \<^verbatim>\<open>reshape()\<close> enumerate them.  The float64 samples the accumulator
  works on are idealised as exact reals.
\<close>

type_synonym shape3 = "nat \<times> nat \<times> nat"

record 'a ndarray =
  shape :: shape3
  vals :: "'a list"

fun size3 :: "shape3 \<Rightarrow> nat" where
  "size3 (a, b, c) = a * b * c"

fun ravel :: "shape3 \<Rightarrow> nat \<Rightarrow> nat \<Rightarrow> nat \<Rightarrow> nat" where
  "ravel (a, b, c) i j k = (i * b + j) * c + k"

definition at3 :: "'a ndarray \<Rightarrow> nat \<Rightarrow> nat \<Rightarrow> nat \<Rightarrow> 'a" where
  "at3 v i j k = vals v ! ravel (shape v) i j k"

definition wf_array :: "'a ndarray \<Rightarrow> bool" where
  "wf_array v = (length (vals v) = size3 (shape v))"

definition zeros :: "shape3 \<Rightarrow> real ndarray" where
  "zeros s = \<lparr>shape = s, vals = replicate (size3 s) 0\<rparr>"

datatype error =
    ReadError string
  | BroadcastError
  | InsufficientSamples
  | NoneTypeError
  | IndexError
  | EmptyArgmax
  | AxisError

text \<open>
  numpy broadcasting of two axes: equal lengths, or one of them of length 1.
\<close>

definition bdim :: "nat \<Rightarrow> nat \<Rightarrow> nat option" where
  "bdim a b = (if a = b then Some a else if a = 1 then Some b else if b = 1 then Some a else None)"

fun broadcast_shapes :: "shape3 \<Rightarrow> shape3 \<Rightarrow> shape3 option" where
  "broadcast_shapes (a, b, c) (a', b', c') =
     (case (bdim a a', bdim b b', bdim c c') of
        (Some x, Some y, Some z) \<Rightarrow> Some (x, y, z)
      | _ \<Rightarrow> None)"

definition bidx :: "nat \<Rightarrow> nat \<Rightarrow> nat" where
  "bidx d i = (if d = 1 then 0 else i)"

text \<open>
  The elements of \<open>v\<close> seen through shape \<open>s\<close>: an axis of length 1 is repeated.  None when
  the shape of \<open>v\<close> cannot be broadcast to \<open>s\<close>.
\<close>

fun broadcast_to :: "shape3 \<Rightarrow> 'a ndarray \<Rightarrow> 'a list option" where
  "broadcast_to (a, b, c) v =
     (case shape v of (a', b', c') \<Rightarrow>
        if (a' = a \<or> a' = 1) \<and> (b' = b \<or> b' = 1) \<and> (c' = c \<or> c' = 1)
        then Some (concat (map (\<lambda>i. concat (map (\<lambda>j. map (\<lambda>k.
                 vals v ! ravel (a', b', c') (bidx a' i) (bidx b' j) (bidx c' k))
               [0..<c]) [0..<b])) [0..<a]))
        else None)"

text \<open>A binary ufunc (\<^verbatim>\<open>x - y\<close>, \<^verbatim>\<open>x * y\<close>): both operands are broadcast to the common shape.\<close>

definition ufunc2 :: "('a \<Rightarrow> 'b \<Rightarrow> 'c) \<Rightarrow> 'a ndarray \<Rightarrow> 'b ndarray \<Rightarrow> error + 'c ndarray" where
  "ufunc2 f x y =
     (case broadcast_shapes (shape x) (shape y) of
        None \<Rightarrow> Inl BroadcastError
      | Some s \<Rightarrow>
          (case (broadcast_to s x, broadcast_to s y) of
             (Some xs, Some ys) \<Rightarrow> Inr \<lparr>shape = s, vals = map2 f xs ys\<rparr>
           | _ \<Rightarrow> Inl BroadcastError))"

text \<open>
  The in-place \<^verbatim>\<open>target += y\<close>: the output keeps the shape of \<open>target\<close>, so \<open>y\<close> has to
  broadcast to it.
\<close>

definition iadd :: "real ndarray \<Rightarrow> real ndarray \<Rightarrow> error + real ndarray" where
  "iadd target y =
     (case broadcast_to (shape target) y of
        None \<Rightarrow> Inl BroadcastError
      | Some ys \<Rightarrow> Inr (target\<lparr>vals := map2 (+) (vals target) ys\<rparr>))"

definition div_scalar :: "real ndarray \<Rightarrow> nat \<Rightarrow> real ndarray" where
  "div_scalar x n = x\<lparr>vals := map (\<lambda>d. d / real n) (vals x)\<rparr>"

section \<open>Volume source\<close>

text \<open>
  The two decoders the accumulator calls, \<^verbatim>\<open>np.load\<close> and \<^verbatim>\<open>nrrd.read\<close>, are taken as
  functions from a path to the decoded array or the error they raise.
\<close>

record volume_source =
  np_load :: "string \<Rightarrow> error + real ndarray"
  nrrd_read :: "string \<Rightarrow> error + real ndarray"

definition endswith :: "string \<Rightarrow> string \<Rightarrow> bool" where
  "endswith s suf = (length suf \<le> length s \<and> drop (length s - length suf) s = suf)"

definition read_array :: "volume_source \<Rightarrow> string \<Rightarrow> error + real ndarray" where
  "read_array io path =
     (if endswith path ''.npy'' then np_load io path else nrrd_read io path)"

section \<open>Streaming moment accumulator\<close>

text \<open>The body of the \<^verbatim>\<open>for path in array_paths\<close> loop of \<^verbatim>\<open>calculate_online_stats_3d\<close>.\<close>

fun welford_loop ::
  "volume_source \<Rightarrow> string list \<Rightarrow> nat \<times> real ndarray \<times> real ndarray
     \<Rightarrow> error + (nat \<times> real ndarray \<times> real ndarray)" where
  "welford_loop io [] st = Inr st"
| "welford_loop io (path # paths) (n, mean_arr, S_arr) =
     (case read_array io path of Inl e \<Rightarrow> Inl e | Inr current_array \<Rightarrow>
      (case ufunc2 (-) current_array mean_arr of Inl e \<Rightarrow> Inl e | Inr delta \<Rightarrow>
      (case iadd mean_arr (div_scalar delta (n + 1)) of Inl e \<Rightarrow> Inl e | Inr mean_arr' \<Rightarrow>
      (case ufunc2 (-) current_array mean_arr' of Inl e \<Rightarrow> Inl e | Inr delta2 \<Rightarrow>
      (case ufunc2 (*) delta delta2 of Inl e \<Rightarrow> Inl e | Inr dd \<Rightarrow>
      (case iadd S_arr dd of Inl e \<Rightarrow> Inl e | Inr S_arr' \<Rightarrow>
         welford_loop io paths (n + 1, mean_arr', S_arr')))))))"

definition calculate_online_stats_3d ::
  "volume_source \<Rightarrow> string list
     \<Rightarrow> error + (real ndarray option \<times> real ndarray option \<times> nat)" where
  "calculate_online_stats_3d io array_paths =
     (case array_paths of
        [] \<Rightarrow> Inr (None, None, 0)
      | first_path # _ \<Rightarrow>
          (case read_array io first_path of Inl e \<Rightarrow> Inl e | Inr first_array \<Rightarrow>
          (case welford_loop io array_paths
                  (0, zeros (shape first_array), zeros (shape first_array)) of
             Inl e \<Rightarrow> Inl e
           | Inr (n, mean_arr, S_arr) \<Rightarrow>
               let variance_arr =
                     (if n < 2 then zeros (shape mean_arr)
                      else S_arr\<lparr>vals := map (\<lambda>s. s / real (n - 1)) (vals S_arr)\<rparr>)
               in Inr (Some mean_arr, Some variance_arr, n))))"

section \<open>Floating-point values with exceptional cases\<close>

text \<open>
  Inside \<^verbatim>\<open>np.errstate(divide='ignore', invalid='ignore')\<close> a division by zero yields
  an infinity or NaN instead of raising.  The values that flow out of the t-test are
  therefore finite numbers, the two infinities, or NaN.
\<close>

datatype fl = Fin real | PInf | NInf | NaN

fun fl_neg :: "fl \<Rightarrow> fl" where
  "fl_neg (Fin r) = Fin (- r)"
| "fl_neg PInf = NInf"
| "fl_neg NInf = PInf"
| "fl_neg NaN = NaN"

fun fl_abs :: "fl \<Rightarrow> fl" where
  "fl_abs (Fin r) = Fin \<bar>r\<bar>"
| "fl_abs PInf = PInf"
| "fl_abs NInf = PInf"
| "fl_abs NaN = NaN"

text \<open>\<^verbatim>\<open>np.sqrt\<close>: NaN on a negative argument.\<close>

definition np_sqrt :: "real ndarray \<Rightarrow> fl ndarray" where
  "np_sqrt x = \<lparr>shape = shape x, vals = map (\<lambda>v. if v < 0 then NaN else Fin (sqrt v)) (vals x)\<rparr>"

text \<open>\<^verbatim>\<open>a[np.isnan(a)] = c\<close>\<close>

definition replace_nan :: "fl \<Rightarrow> fl ndarray \<Rightarrow> fl ndarray" where
  "replace_nan c a = a\<lparr>vals := map (\<lambda>x. if x = NaN then c else x) (vals a)\<rparr>"

section \<open>Welch's t-test from summary statistics\<close>

text \<open>
  Modelled from the spec: \<^verbatim>\<open>scipy.stats.ttest_ind_from_stats\<close> is a library function
  whose code is not part of the repository.  The spec describes it as Welch's
  unequal-variance two-sample t-statistic with the Welch-Satterthwaite degrees of
  freedom and its two-sided p-value, whose zero denominator yields NaN or an infinity.
  Per voxel, with \<open>vn = std\<^sup>2 / n\<close>: the statistic is \<open>(mean1 - mean2) / sqrt (vn1 + vn2)\<close>;
  a zero denominator gives NaN for a zero numerator and a signed infinity otherwise;
  an undefined (0/0) degrees-of-freedom value is replaced by 1.  The two-sided tail
  probability of Student's distribution is the parameter \<open>sf\<close> (degrees of freedom,
  absolute value of the statistic); it is 0 at an infinite statistic and NaN at NaN.
  The function is only called with both sample counts at least 2.
\<close>

fun welch_voxel ::
  "(real \<Rightarrow> real \<Rightarrow> real) \<Rightarrow> nat \<Rightarrow> nat \<Rightarrow> real \<times> fl \<Rightarrow> real \<times> fl \<Rightarrow> fl \<times> fl" where
  "welch_voxel sf n1 n2 (m1, Fin s1) (m2, Fin s2) =
     (let vn1 = s1\<^sup>2 / real n1;
          vn2 = s2\<^sup>2 / real n2;
          dfden = vn1\<^sup>2 / real (n1 - 1) + vn2\<^sup>2 / real (n2 - 1);
          df = (if dfden = 0 then 1 else (vn1 + vn2)\<^sup>2 / dfden);
          denom = sqrt (vn1 + vn2);
          d = m1 - m2
      in if denom = 0
         then (if d = 0 then (NaN, NaN)
               else if 0 < d then (PInf, Fin 0) else (NInf, Fin 0))
         else (Fin (d / denom), Fin (sf df \<bar>d / denom\<bar>)))"
| "welch_voxel sf n1 n2 _ _ = (NaN, NaN)"

definition zip_arrays :: "'a ndarray \<Rightarrow> 'b ndarray \<Rightarrow> ('a \<times> 'b) ndarray" where
  "zip_arrays x y = \<lparr>shape = shape x, vals = zip (vals x) (vals y)\<rparr>"

definition ttest_ind_from_stats ::
  "(real \<Rightarrow> real \<Rightarrow> real) \<Rightarrow> real ndarray \<Rightarrow> fl ndarray \<Rightarrow> nat
     \<Rightarrow> real ndarray \<Rightarrow> fl ndarray \<Rightarrow> nat \<Rightarrow> error + (fl ndarray \<times> fl ndarray)" where
  "ttest_ind_from_stats sf mean1 std1 nobs1 mean2 std2 nobs2 =
     (case ufunc2 (welch_voxel sf nobs1 nobs2) (zip_arrays mean1 std1) (zip_arrays mean2 std2) of
        Inl e \<Rightarrow> Inl e
      | Inr tp \<Rightarrow> Inr (\<lparr>shape = shape tp, vals = map fst (vals tp)\<rparr>,
                       \<lparr>shape = shape tp, vals = map snd (vals tp)\<rparr>))"

section \<open>False-discovery-rate correction\<close>

text \<open>
  Modelled from the spec: \<^verbatim>\<open>statsmodels.stats.multitest.fdrcorrection\<close> is a library
  function whose code is not part of the repository.  The spec describes it as the
  Benjamini-Hochberg step-up procedure: sort ascending, compare the p-value of rank \<open>i\<close>
  with \<open>(i/m) * alpha\<close>, reject everything up to the largest rank that passes, and adjust
  by the running minimum, taken from the largest rank downwards, of \<open>p * m / rank\<close>,
  capped at 1; the results are put back at the positions the p-values came from.
  Sorting places the values as \<^verbatim>\<open>np.argsort\<close> does (NaN last); equal p-values are kept in
  their original order.
\<close>

fun fl_key :: "fl \<Rightarrow> nat \<times> real" where
  "fl_key NInf = (0, 0)"
| "fl_key (Fin r) = (1, r)"
| "fl_key PInf = (2, 0)"
| "fl_key NaN = (3, 0)"

definition argsort :: "fl list \<Rightarrow> nat list" where
  "argsort ps = sort_key (\<lambda>i. fl_key (ps ! i)) [0..<length ps]"

text \<open>Comparisons with a finite bound; a comparison with NaN is false.\<close>

fun fl_le_real :: "fl \<Rightarrow> real \<Rightarrow> bool" where
  "fl_le_real (Fin r) x = (r \<le> x)"
| "fl_le_real NInf x = True"
| "fl_le_real PInf x = False"
| "fl_le_real NaN x = False"

fun fl_gt_real :: "fl \<Rightarrow> real \<Rightarrow> bool" where
  "fl_gt_real (Fin r) x = (r > x)"
| "fl_gt_real PInf x = True"
| "fl_gt_real NInf x = False"
| "fl_gt_real NaN x = False"

text \<open>Division by a positive finite number.\<close>

fun fl_div_real :: "fl \<Rightarrow> real \<Rightarrow> fl" where
  "fl_div_real (Fin r) x = Fin (r / x)"
| "fl_div_real y x = y"

text \<open>\<^verbatim>\<open>np.minimum\<close>: NaN propagates.\<close>

fun fl_minimum :: "fl \<Rightarrow> fl \<Rightarrow> fl" where
  "fl_minimum NaN _ = NaN"
| "fl_minimum _ NaN = NaN"
| "fl_minimum NInf _ = NInf"
| "fl_minimum _ NInf = NInf"
| "fl_minimum PInf y = y"
| "fl_minimum x PInf = x"
| "fl_minimum (Fin a) (Fin b) = Fin (min a b)"

text \<open>\<^verbatim>\<open>np.minimum.accumulate\<close>: the running minimum from the left.\<close>

fun accumulate :: "('a \<Rightarrow> 'a \<Rightarrow> 'a) \<Rightarrow> 'a list \<Rightarrow> 'a list" where
  "accumulate f [] = []"
| "accumulate f [x] = [x]"
| "accumulate f (x # y # ys) = x # accumulate f (f x y # ys)"

text \<open>
  \<^verbatim>\<open>out = np.empty_like(xs); out[idx] = xs\<close>.  The initial contents of \<open>out\<close> are
  arbitrary; \<open>xs\<close> itself is taken.
\<close>

definition scatter :: "nat list \<Rightarrow> 'a list \<Rightarrow> 'a list" where
  "scatter idx xs = fold (\<lambda>(i, x) out. out[i := x]) (zip idx xs) xs"

text \<open>\<^verbatim>\<open>np.nonzero(bs)[0]\<close>: the indices of the True entries, ascending.\<close>

definition nonzero :: "bool list \<Rightarrow> nat list" where
  "nonzero bs = filter (\<lambda>i. bs ! i) [0..<length bs]"

definition fdrcorrection :: "fl list \<Rightarrow> real \<Rightarrow> bool list \<times> fl list" where
  "fdrcorrection pvals alpha =
     (let pvals_sortind = argsort pvals;
          pvals_sorted = map (\<lambda>i. pvals ! i) pvals_sortind;
          nobs = length pvals_sorted;
          ecdffactor = map (\<lambda>k. real k / real nobs) [1..<nobs + 1];
          reject0 = map2 (\<lambda>p e. fl_le_real p (e * alpha)) pvals_sorted ecdffactor;
          reject = (if True \<in> set reject0
                    then let rejectmax = Max (set (nonzero reject0))
                         in replicate rejectmax True @ drop rejectmax reject0
                    else reject0);
          pvals_corrected_raw = map2 fl_div_real pvals_sorted ecdffactor;
          pvals_corrected = rev (accumulate fl_minimum (rev pvals_corrected_raw));
          pvals_corrected' = map (\<lambda>p. if fl_gt_real p 1 then Fin 1 else p) pvals_corrected
      in (scatter pvals_sortind reject, scatter pvals_sortind pvals_corrected'))"

section \<open>Group comparator\<close>

definition flatten :: "'a ndarray \<Rightarrow> 'a list" where
  "flatten a = vals a"

text \<open>
  \<^verbatim>\<open>xs.reshape(s)\<close>: the same elements in the same order under shape \<open>s\<close>.  It is only
  applied to the outputs of \<open>fdrcorrection\<close>, which are as long as the flattened volume.
\<close>

definition reshape :: "'a list \<Rightarrow> shape3 \<Rightarrow> 'a ndarray" where
  "reshape xs s = \<lparr>shape = s, vals = xs\<rparr>"

record results =
  t_statistics :: "fl ndarray"
  p_values_uncorrected :: "fl ndarray"
  p_values_corrected_fdr :: "fl ndarray"
  significant_mask_fdr :: "bool ndarray"
  mean_diff :: "real ndarray"

definition compare_groups_voxelwise ::
  "(real \<Rightarrow> real \<Rightarrow> real) \<Rightarrow> volume_source \<Rightarrow> string list \<Rightarrow> string list \<Rightarrow> real
     \<Rightarrow> error + results" where
  "compare_groups_voxelwise sf io group_a_paths group_b_paths alpha =
     (case calculate_online_stats_3d io group_a_paths of Inl e \<Rightarrow> Inl e
      | Inr (mean_A, var_A, n_A) \<Rightarrow>
     (case calculate_online_stats_3d io group_b_paths of Inl e \<Rightarrow> Inl e
      | Inr (mean_B, var_B, n_B) \<Rightarrow>
        if n_A < 2 \<or> n_B < 2 then Inl InsufficientSamples
        else
          (case (mean_A, var_A, mean_B, var_B) of
             (Some mA, Some vA, Some mB, Some vB) \<Rightarrow>
               (case ttest_ind_from_stats sf mA (np_sqrt vA) n_A mB (np_sqrt vB) n_B of
                  Inl e \<Rightarrow> Inl e
                | Inr (t_stats0, p_values0) \<Rightarrow>
                    let t_stats = replace_nan (Fin 0) t_stats0;
                        p_values = replace_nan (Fin 1) p_values0;
                        original_shape = shape p_values;
                        p_values_flat = flatten p_values;
                        (rejected, p_values_corrected) = fdrcorrection p_values_flat alpha;
                        significant_mask = reshape rejected original_shape
                    in (case ufunc2 (-) mB mA of Inl e \<Rightarrow> Inl e
                        | Inr md \<Rightarrow>
                            Inr \<lparr>t_statistics = t_stats,
                                 p_values_uncorrected = p_values,
                                 p_values_corrected_fdr = reshape p_values_corrected original_shape,
                                 significant_mask_fdr = significant_mask,
                                 mean_diff = md\<rparr>))
           | _ \<Rightarrow> Inl NoneTypeError)))"

section \<open>Result projector\<close>

text \<open>
  \<^verbatim>\<open>np.argmax\<close> along an axis: the first index of the maximum of each ray.  It raises on
  an axis of length 0, which \<open>visualize_single_projection\<close> checks before it looks at
  any ray; the first equation is never reached from there.
\<close>

fun argmax_from :: "real list \<Rightarrow> nat \<Rightarrow> nat \<Rightarrow> real \<Rightarrow> nat" where
  "argmax_from [] i best_i best = best_i"
| "argmax_from (x # xs) i best_i best =
     (if best < x then argmax_from xs (Suc i) i x else argmax_from xs (Suc i) best_i best)"

fun argmax :: "real list \<Rightarrow> nat" where
  "argmax [] = 0"
| "argmax (x # xs) = argmax_from xs 1 0 x"

text \<open>
  \<^verbatim>\<open>diff_mask = np.zeros_like(mean_diff); diff_mask[significant_mask] = mean_diff[significant_mask]\<close>:
  a boolean index must have the shape of the array it indexes.
\<close>

definition masked_diff :: "bool ndarray \<Rightarrow> real ndarray \<Rightarrow> error + real ndarray" where
  "masked_diff significant_mask mean_difference =
     (if shape significant_mask = shape mean_difference
      then Inr (mean_difference\<lparr>vals := map2 (\<lambda>s d. if s then d else 0)
                                    (vals significant_mask) (vals mean_difference)\<rparr>)
      else Inl IndexError)"

text \<open>The ray of \<open>a\<close> along \<open>axis\<close> through output pixel \<open>(i, j)\<close>.\<close>

definition ray :: "real ndarray \<Rightarrow> nat \<Rightarrow> nat \<Rightarrow> nat \<Rightarrow> real list" where
  "ray a axis i j =
     (case shape a of (n0, n1, n2) \<Rightarrow>
        if axis = 0 then map (\<lambda>idx. at3 a idx i j) [0..<n0]
        else if axis = 1 then map (\<lambda>idx. at3 a i idx j) [0..<n1]
        else map (\<lambda>idx. at3 a i j idx) [0..<n2])"

text \<open>The shape of \<^verbatim>\<open>np.take(a, 0, axis=axis)\<close>.\<close>

definition proj_shape :: "shape3 \<Rightarrow> nat \<Rightarrow> nat \<times> nat" where
  "proj_shape s axis =
     (case s of (n0, n1, n2) \<Rightarrow>
        if axis = 0 then (n1, n2) else if axis = 1 then (n0, n2) else (n0, n1))"

text \<open>
  One output pixel of the loop of \<^verbatim>\<open>visualize_single_projection\<close>:
  \<^verbatim>\<open>idx = max_indices[i, j]\<close>, then \<^verbatim>\<open>diff_mask[...] if idx > 0 else 0\<close>.
\<close>

definition diff_proj_pixel :: "real ndarray \<Rightarrow> nat \<Rightarrow> nat \<Rightarrow> nat \<Rightarrow> nat \<Rightarrow> real" where
  "diff_proj_pixel diff_mask axis_idx idx i j =
     (if axis_idx = 0 then (if idx > 0 then at3 diff_mask idx i j else 0)
      else if axis_idx = 1 then (if idx > 0 then at3 diff_mask i idx j else 0)
      else (if idx > 0 then at3 diff_mask i j idx else 0))"

text \<open>
  The array \<^verbatim>\<open>diff_proj\<close> that \<^verbatim>\<open>visualize_single_projection\<close> computes and plots, as a
  list of rows.
\<close>

definition axis_len :: "shape3 \<Rightarrow> nat \<Rightarrow> nat" where
  "axis_len s axis =
     (case s of (n0, n1, n2) \<Rightarrow> if axis = 0 then n0 else if axis = 1 then n1 else n2)"

definition visualize_single_projection ::
  "bool ndarray \<Rightarrow> real ndarray \<Rightarrow> nat \<Rightarrow> error + real list list" where
  "visualize_single_projection significant_mask mean_difference axis_idx =
     (case masked_diff significant_mask mean_difference of Inl e \<Rightarrow> Inl e
      | Inr diff_mask \<Rightarrow>
          if axis_idx > 2 then Inl AxisError
          else if axis_len (shape diff_mask) axis_idx = 0 then Inl EmptyArgmax
          else
            (case proj_shape (shape diff_mask) axis_idx of (r, c) \<Rightarrow>
               Inr (map (\<lambda>i. map (\<lambda>j.
                      diff_proj_pixel diff_mask axis_idx
                        (argmax (map abs (ray diff_mask axis_idx i j))) i j)
                    [0..<c]) [0..<r])))"

section \<open>Reference definitions and sample volume sources\<close>

text \<open>
  Following the spec's words (section 8, "Welford correctness"): the naive two-pass
  statistics computed with the whole stack of arrays loaded at once, voxel by voxel:
  the mean, and the sample variance with the \<open>N - 1\<close> denominator.
\<close>

definition column :: "real ndarray list \<Rightarrow> nat \<Rightarrow> real list" where
  "column stack i = map (\<lambda>a. vals a ! i) stack"

definition naive_mean :: "real list \<Rightarrow> real" where
  "naive_mean xs = sum_list xs / real (length xs)"

definition naive_variance :: "real list \<Rightarrow> real" where
  "naive_variance xs = (\<Sum>x\<leftarrow>xs. (x - naive_mean xs)\<^sup>2) / real (length xs - 1)"

definition two_pass_mean :: "shape3 \<Rightarrow> real ndarray list \<Rightarrow> real ndarray" where
  "two_pass_mean s stack =
     \<lparr>shape = s, vals = map (\<lambda>i. naive_mean (column stack i)) [0..<size3 s]\<rparr>"

definition two_pass_variance :: "shape3 \<Rightarrow> real ndarray list \<Rightarrow> real ndarray" where
  "two_pass_variance s stack =
     \<lparr>shape = s, vals = map (\<lambda>i. naive_variance (column stack i)) [0..<size3 s]\<rparr>"

text \<open>A shape \<open>s'\<close> broadcasts to \<open>s\<close>: every axis has the length of \<open>s\<close> or length 1.\<close>

fun broadcastable_to :: "shape3 \<Rightarrow> shape3 \<Rightarrow> bool" where
  "broadcastable_to (a, b, c) (a', b', c') =
     ((a' = a \<or> a' = 1) \<and> (b' = b \<or> b' = 1) \<and> (c' = c \<or> c' = 1))"

text \<open>A volume source over a finite table of files, for concrete runs.\<close>

definition mem_source :: "(string \<times> real ndarray) list \<Rightarrow> volume_source" where
  "mem_source files =
     \<lparr>np_load = (\<lambda>p. case map_of files p of None \<Rightarrow> Inl (ReadError p) | Some v \<Rightarrow> Inr v),
      nrrd_read = (\<lambda>p. case map_of files p of None \<Rightarrow> Inl (ReadError p) | Some v \<Rightarrow> Inr v)\<rparr>"

section \<open>Properties of the accumulator\<close>

text \<open>
  C5 (as stated): for the empty path sequence the accumulator fails with an
  empty-group error and returns no result.  On the code this is false: the guard
  \<^verbatim>\<open>if not array_paths: return None, None, 0\<close> returns a result.
\<close>

theorem empty_group_returns_counterexample:
  "calculate_online_stats_3d (mem_source []) [] = Inr (None, None, 0)"
  by (simp add: calculate_online_stats_3d_def)

text \<open>
  C5 (amended): for the empty path sequence the accumulator returns the triple
  \<open>(None, None, 0)\<close> without raising, whatever the volume source; the empty group is
  rejected one level up, where \<open>compare_groups_voxelwise\<close> fails whenever either of its
  groups is empty.
\<close>

theorem empty_group_returns_zero_count:
  "calculate_online_stats_3d io [] = Inr (None, None, 0)
   \<and> isl (compare_groups_voxelwise sf io [] group_b_paths alpha)
   \<and> isl (compare_groups_voxelwise sf io group_a_paths [] alpha)"
  by (auto simp add: calculate_online_stats_3d_def compare_groups_voxelwise_def
           split: sum.splits list.splits)

subsection \<open>Broadcasting arrays of equal shape\<close>

lemma map_upt_shift: "map f [m..<m + n] = map (\<lambda>j. f (m + j)) [0..<n]"
  by (rule nth_equalityI) auto

lemma concat_map_upt:
  "concat (map (\<lambda>i. map (\<lambda>j. f (i * n + j)) [0..<n]) [0..<m]) = map f [0..<m * n]"
proof (induction m)
  case 0
  then show ?case by simp
next
  case (Suc m)
  have "[0..<Suc m * n] = [0..<m * n] @ [m * n..<m * n + n]"
    by (metis add.commute le_add1 mult_Suc upt_add_eq_append zero_le)
  then show ?case using Suc by (simp add: map_upt_shift)
qed

lemma concat_map_upt3:
  "concat (map (\<lambda>i. concat (map (\<lambda>j. map (\<lambda>k. f ((i * b + j) * c + k)) [0..<c]) [0..<b])) [0..<a])
   = map f [0..<a * b * c]"
proof -
  have inner: "concat (map (\<lambda>j. map (\<lambda>k. f ((i * b + j) * c + k)) [0..<c]) [0..<b])
          = map (\<lambda>l. f (i * (b * c) + l)) [0..<b * c]" for i
  proof -
    have "(\<lambda>j. map (\<lambda>k. f ((i * b + j) * c + k)) [0..<c])
            = (\<lambda>j. map (\<lambda>k. (\<lambda>l. f (i * (b * c) + l)) (j * c + k)) [0..<c])"
      by (simp add: algebra_simps)
    then show ?thesis using concat_map_upt [of "\<lambda>l. f (i * (b * c) + l)" c b] by simp
  qed
  show ?thesis
    unfolding inner using concat_map_upt [of f "b * c" a] by (simp add: mult.assoc)
qed

lemma broadcast_to_same:
  assumes "shape v = s" and "wf_array v"
  shows "broadcast_to s v = Some (vals v)"
proof -
  obtain a b c where s: "s = (a, b, c)" by (cases s) auto
  have len: "length (vals v) = a * b * c" using assms s by (simp add: wf_array_def)
  have "concat (map (\<lambda>i. concat (map (\<lambda>j. map (\<lambda>k.
                 vals v ! ravel (a, b, c) (bidx a i) (bidx b j) (bidx c k))
               [0..<c]) [0..<b])) [0..<a])
      = concat (map (\<lambda>i. concat (map (\<lambda>j. map (\<lambda>k.
                 vals v ! ((i * b + j) * c + k))
               [0..<c]) [0..<b])) [0..<a])"
    by (intro arg_cong [where f = concat] map_cong refl) (auto simp: bidx_def)
  also have "\<dots> = map (\<lambda>l. vals v ! l) [0..<a * b * c]"
    by (rule concat_map_upt3)
  also have "\<dots> = vals v"
    using len by (metis map_nth)
  finally show ?thesis using assms s by simp
qed

lemma bdim_same: "bdim a a = Some a"
  by (simp add: bdim_def)

lemma broadcast_shapes_same: "broadcast_shapes s s = Some s"
  by (cases s) (simp add: bdim_same)

lemma ufunc2_same:
  assumes "shape x = s" "shape y = s" "wf_array x" "wf_array y"
  shows "ufunc2 f x y = Inr \<lparr>shape = s, vals = map2 f (vals x) (vals y)\<rparr>"
  using assms by (simp add: ufunc2_def broadcast_shapes_same broadcast_to_same)

lemma iadd_same:
  assumes "shape target = s" "shape y = s" "wf_array y"
  shows "iadd target y = Inr \<lparr>shape = s, vals = map2 (+) (vals target) (vals y)\<rparr>"
  using assms by (simp add: iadd_def broadcast_to_same)

subsection \<open>The Welford update\<close>

lemma sum_sq_dev:
  "(\<Sum>y\<leftarrow>xs. (y - c)\<^sup>2) = (\<Sum>y\<leftarrow>xs. y\<^sup>2) - 2 * c * sum_list xs + real (length xs) * c\<^sup>2"
  for c :: real
  by (induction xs) (auto simp: power2_eq_square algebra_simps)

lemma naive_mean_snoc:
  "naive_mean (xs @ [x]) = naive_mean xs + (x - naive_mean xs) / real (length xs + 1)"
proof (cases "xs = []")
  case True
  then show ?thesis by (simp add: naive_mean_def)
next
  case False
  define n where "n = real (length xs)"
  define T where "T = sum_list xs"
  have n: "0 < n" using False by (simp add: n_def)
  have np: "n + 1 \<noteq> 0" using n by simp
  have "T / n + (x - T / n) / (n + 1) = (T / n * (n + 1) + (x - T / n)) / (n + 1)"
    using np by (simp add: add_divide_distrib)
  also have "T / n * (n + 1) + (x - T / n) = T + x"
    using n by (simp add: distrib_left)
  finally have "(T + x) / (n + 1) = T / n + (x - T / n) / (n + 1)" by simp
  then show ?thesis
    by (simp add: naive_mean_def n_def T_def add.commute)
qed

lemma mean_times_length: "real (length xs) * naive_mean xs = sum_list xs"
  by (cases "xs = []") (simp_all add: naive_mean_def)

lemma sum_sq_dev_mean:
  "(\<Sum>y\<leftarrow>xs. (y - naive_mean xs)\<^sup>2) = (\<Sum>y\<leftarrow>xs. y\<^sup>2) - real (length xs) * (naive_mean xs)\<^sup>2"
proof -
  have "2 * naive_mean xs * sum_list xs = 2 * real (length xs) * (naive_mean xs)\<^sup>2"
    using mean_times_length [of xs, symmetric] by (simp add: power2_eq_square)
  then show ?thesis by (simp add: sum_sq_dev)
qed

lemma welford_S_snoc:
  "(\<Sum>y\<leftarrow>xs @ [x]. (y - naive_mean (xs @ [x]))\<^sup>2)
     = (\<Sum>y\<leftarrow>xs. (y - naive_mean xs)\<^sup>2) + (x - naive_mean xs) * (x - naive_mean (xs @ [x]))"
proof -
  define n where "n = real (length xs)"
  define m where "m = naive_mean xs"
  define m' where "m' = naive_mean (xs @ [x])"
  have m': "(n + 1) * m' = n * m + x"
    using mean_times_length [of "xs @ [x]"] mean_times_length [of xs]
    by (simp add: n_def m_def m'_def algebra_simps)
  have "m * ((n + 1) * m') = m * (n * m + x)" by (simp only: m')
  then have mm: "m' * m + m' * (m * n) = m * x + m * (m * n)"
    by (simp add: algebra_simps)
  have "(n + 1) * m' * m' = (n * m + x) * m'" by (simp only: m')
  then have key: "(n + 1) * m'\<^sup>2 - x * m' - m * x + m * m' - n * m\<^sup>2 = 0"
    using mm by (simp add: power2_eq_square algebra_simps)
  have "(\<Sum>y\<leftarrow>xs @ [x]. (y - m')\<^sup>2) = (\<Sum>y\<leftarrow>xs. y\<^sup>2) + x\<^sup>2 - (n + 1) * m'\<^sup>2"
    unfolding m'_def sum_sq_dev_mean by (simp add: n_def algebra_simps)
  moreover have "(\<Sum>y\<leftarrow>xs. (y - m)\<^sup>2) = (\<Sum>y\<leftarrow>xs. y\<^sup>2) - n * m\<^sup>2"
    unfolding m_def sum_sq_dev_mean by (simp add: n_def)
  ultimately show ?thesis
    using key unfolding m_def [symmetric] m'_def [symmetric]
    by (simp add: power2_eq_square algebra_simps)
qed


lemma welford_step:
  assumes rd: "read_array io p = Inr x"
    and x: "shape x = s" "wf_array x"
    and m: "shape mean_arr = s" "wf_array mean_arr"
    and S: "shape S_arr = s" "wf_array S_arr"
  shows "welford_loop io (p # ps) (n, mean_arr, S_arr)
    = welford_loop io ps (n + 1,
        \<lparr>shape = s, vals = map (\<lambda>i. vals mean_arr ! i
              + (vals x ! i - vals mean_arr ! i) / real (n + 1)) [0..<size3 s]\<rparr>,
        \<lparr>shape = s, vals = map (\<lambda>i. vals S_arr ! i
              + (vals x ! i - vals mean_arr ! i)
                * (vals x ! i - (vals mean_arr ! i
                     + (vals x ! i - vals mean_arr ! i) / real (n + 1)))) [0..<size3 s]\<rparr>)"
proof -
  let ?N = "size3 s"
  have lx: "length (vals x) = ?N" and lm: "length (vals mean_arr) = ?N"
    and lS: "length (vals S_arr) = ?N"
    using x m S by (simp_all add: wf_array_def)
  define delta where "delta = \<lparr>shape = s, vals = map2 (-) (vals x) (vals mean_arr)\<rparr>"
  have d: "ufunc2 (-) x mean_arr = Inr delta"
    unfolding delta_def by (rule ufunc2_same [OF x(1) m(1) x(2) m(2)])
  have wd: "shape (div_scalar delta (n + 1)) = s" "wf_array (div_scalar delta (n + 1))"
    using lx lm by (simp_all add: div_scalar_def delta_def wf_array_def)
  define mean' where "mean' = \<lparr>shape = s, vals = map2 (+) (vals mean_arr) (vals (div_scalar delta (n + 1)))\<rparr>"
  have m': "iadd mean_arr (div_scalar delta (n + 1)) = Inr mean'"
    unfolding mean'_def using m(1) wd by (rule iadd_same)
  have wm': "shape mean' = s" "wf_array mean'"
    using lx lm by (simp_all add: mean'_def div_scalar_def delta_def wf_array_def)
  define delta2 where "delta2 = \<lparr>shape = s, vals = map2 (-) (vals x) (vals mean')\<rparr>"
  have d2: "ufunc2 (-) x mean' = Inr delta2"
    unfolding delta2_def by (rule ufunc2_same [OF x(1) wm'(1) x(2) wm'(2)])
  have wdl: "shape delta = s" "wf_array delta" "shape delta2 = s" "wf_array delta2"
    using lx lm by (simp_all add: delta_def delta2_def mean'_def div_scalar_def wf_array_def)
  define dd where "dd = \<lparr>shape = s, vals = map2 (*) (vals delta) (vals delta2)\<rparr>"
  have dd: "ufunc2 (*) delta delta2 = Inr dd"
    unfolding dd_def by (rule ufunc2_same [OF wdl(1) wdl(3) wdl(2) wdl(4)])
  have wdd: "shape dd = s" "wf_array dd"
    using lx lm by (simp_all add: dd_def delta_def delta2_def mean'_def div_scalar_def wf_array_def)
  define S' where "S' = \<lparr>shape = s, vals = map2 (+) (vals S_arr) (vals dd)\<rparr>"
  have S': "iadd S_arr dd = Inr S'"
    unfolding S'_def using S(1) wdd by (rule iadd_same)
  have vm: "vals mean' = map (\<lambda>i. vals mean_arr ! i
              + (vals x ! i - vals mean_arr ! i) / real (n + 1)) [0..<?N]"
    using lx lm
    by (intro nth_equalityI) (simp_all add: mean'_def div_scalar_def delta_def)
  have vS: "vals S' = map (\<lambda>i. vals S_arr ! i
              + (vals x ! i - vals mean_arr ! i)
                * (vals x ! i - (vals mean_arr ! i
                     + (vals x ! i - vals mean_arr ! i) / real (n + 1)))) [0..<?N]"
    using lx lm lS
    by (intro nth_equalityI) (simp_all add: S'_def dd_def delta2_def mean'_def div_scalar_def delta_def)
  have "welford_loop io (p # ps) (n, mean_arr, S_arr) = welford_loop io ps (n + 1, mean', S')"
    using rd d m' d2 dd S' by simp
  moreover have "mean' = \<lparr>shape = s, vals = map (\<lambda>i. vals mean_arr ! i
              + (vals x ! i - vals mean_arr ! i) / real (n + 1)) [0..<?N]\<rparr>"
    using vm by (simp add: mean'_def)
  moreover have "S' = \<lparr>shape = s, vals = map (\<lambda>i. vals S_arr ! i
              + (vals x ! i - vals mean_arr ! i)
                * (vals x ! i - (vals mean_arr ! i
                     + (vals x ! i - vals mean_arr ! i) / real (n + 1)))) [0..<?N]\<rparr>"
    using vS by (simp add: S'_def)
  ultimately show ?thesis by simp
qed

lemma column_snoc: "column (pre @ [x]) i = column pre i @ [vals x ! i]"
  by (simp add: column_def)

lemma welford_loop_stack:
  assumes "map (read_array io) paths = map Inr rest"
    and "\<forall>a\<in>set rest. shape a = s \<and> wf_array a"
    and "shape mean_arr = s" "wf_array mean_arr" "shape S_arr = s" "wf_array S_arr"
    and "\<forall>i<size3 s. vals mean_arr ! i = naive_mean (column pre i)
            \<and> vals S_arr ! i = (\<Sum>y\<leftarrow>column pre i. (y - naive_mean (column pre i))\<^sup>2)"
  shows "welford_loop io paths (length pre, mean_arr, S_arr)
    = Inr (length (pre @ rest),
        \<lparr>shape = s, vals = map (\<lambda>i. naive_mean (column (pre @ rest) i)) [0..<size3 s]\<rparr>,
        \<lparr>shape = s, vals = map (\<lambda>i. \<Sum>y\<leftarrow>column (pre @ rest) i.
              (y - naive_mean (column (pre @ rest) i))\<^sup>2) [0..<size3 s]\<rparr>)"
  using assms
proof (induction paths arbitrary: pre rest mean_arr S_arr)
  case Nil
  then have r: "rest = []" by simp
  have "vals mean_arr = map (\<lambda>i. naive_mean (column pre i)) [0..<size3 s]"
    using Nil.prems by (intro nth_equalityI) (simp_all add: wf_array_def)
  moreover have "vals S_arr = map (\<lambda>i. \<Sum>y\<leftarrow>column pre i.
              (y - naive_mean (column pre i))\<^sup>2) [0..<size3 s]"
    using Nil.prems by (intro nth_equalityI) (simp_all add: wf_array_def)
  ultimately show ?case using Nil.prems(3,5) r by simp
next
  case (Cons p ps)
  then obtain x xs where rest: "rest = x # xs" and rd: "read_array io p = Inr x"
    and rds: "map (read_array io) ps = map Inr xs"
    by (cases rest) auto
  have x: "shape x = s" "wf_array x" using Cons.prems(2) rest by simp_all
  let ?m = "\<lparr>shape = s, vals = map (\<lambda>i. vals mean_arr ! i
              + (vals x ! i - vals mean_arr ! i) / real (length pre + 1)) [0..<size3 s]\<rparr>"
  let ?S = "\<lparr>shape = s, vals = map (\<lambda>i. vals S_arr ! i
              + (vals x ! i - vals mean_arr ! i)
                * (vals x ! i - (vals mean_arr ! i
                     + (vals x ! i - vals mean_arr ! i) / real (length pre + 1)))) [0..<size3 s]\<rparr>"
  have step: "welford_loop io (p # ps) (length pre, mean_arr, S_arr)
      = welford_loop io ps (length (pre @ [x]), ?m, ?S)"
    using welford_step [OF rd x Cons.prems(3,4,5,6), of ps "length pre"] by simp
  have inv: "\<forall>i<size3 s. vals ?m ! i = naive_mean (column (pre @ [x]) i)
            \<and> vals ?S ! i = (\<Sum>y\<leftarrow>column (pre @ [x]) i. (y - naive_mean (column (pre @ [x]) i))\<^sup>2)"
  proof (intro allI impI)
    fix i assume i: "i < size3 s"
    have l: "length (column pre i) = length pre" by (simp add: column_def)
    have a: "vals ?m ! i = naive_mean (column (pre @ [x]) i)"
      using i Cons.prems(7) naive_mean_snoc [of "column pre i" "vals x ! i"]
      by (simp add: column_snoc l)
    have b: "vals ?S ! i = (\<Sum>y\<leftarrow>column (pre @ [x]) i. (y - naive_mean (column (pre @ [x]) i))\<^sup>2)"
      using i Cons.prems(7) welford_S_snoc [of "column pre i" "vals x ! i"]
        naive_mean_snoc [of "column pre i" "vals x ! i"]
      by (simp add: column_snoc l)
    from a b show "vals ?m ! i = naive_mean (column (pre @ [x]) i)
            \<and> vals ?S ! i = (\<Sum>y\<leftarrow>column (pre @ [x]) i. (y - naive_mean (column (pre @ [x]) i))\<^sup>2)"
      by simp
  qed
  have xs: "\<forall>a\<in>set xs. shape a = s \<and> wf_array a" using Cons.prems(2) rest by simp
  have w: "shape ?m = s" "wf_array ?m" "shape ?S = s" "wf_array ?S"
    by (simp_all add: wf_array_def)
  have "welford_loop io ps (length (pre @ [x]), ?m, ?S)
    = Inr (length ((pre @ [x]) @ xs),
        \<lparr>shape = s, vals = map (\<lambda>i. naive_mean (column ((pre @ [x]) @ xs) i)) [0..<size3 s]\<rparr>,
        \<lparr>shape = s, vals = map (\<lambda>i. \<Sum>y\<leftarrow>column ((pre @ [x]) @ xs) i.
              (y - naive_mean (column ((pre @ [x]) @ xs) i))\<^sup>2) [0..<size3 s]\<rparr>)"
    by (rule Cons.IH [OF rds xs w inv])
  then show ?case using step rest by simp
qed


text \<open>
  C1: for every non-empty list of paths whose arrays all have the same shape, the
  accumulator returns the naive two-pass mean and, for two or more arrays, the naive
  sample variance with the \<open>N - 1\<close> denominator (an all-zero volume for a single array),
  together with the number of arrays; and one pass of its loop is the Welford update
  \<open>delta = x - mean; mean += delta / k; delta2 = x - mean; S += delta * delta2\<close> at
  every voxel.  Float64 arithmetic is idealised as exact real arithmetic.
\<close>

theorem welford_equals_two_pass:
  assumes ne: "paths \<noteq> []"
    and rds: "map (read_array io) paths = map Inr stack"
    and shp: "\<forall>a\<in>set stack. shape a = s \<and> wf_array a"
    and rd: "read_array io p = Inr x"
    and x: "shape x = s" "wf_array x"
    and m: "shape mean_arr = s" "wf_array mean_arr"
    and S: "shape S_arr = s" "wf_array S_arr"
  shows "calculate_online_stats_3d io paths
           = Inr (Some (two_pass_mean s stack),
                  Some (if 2 \<le> length stack then two_pass_variance s stack else zeros s),
                  length stack)
       \<and> welford_loop io [p] (k, mean_arr, S_arr)
           = Inr (k + 1,
               \<lparr>shape = s, vals = map (\<lambda>i. vals mean_arr ! i
                    + (vals x ! i - vals mean_arr ! i) / real (k + 1)) [0..<size3 s]\<rparr>,
               \<lparr>shape = s, vals = map (\<lambda>i. vals S_arr ! i
                    + (vals x ! i - vals mean_arr ! i)
                      * (vals x ! i - (vals mean_arr ! i
                           + (vals x ! i - vals mean_arr ! i) / real (k + 1)))) [0..<size3 s]\<rparr>)"
proof
  obtain p0 ps where paths: "paths = p0 # ps" using ne by (cases paths) auto
  then obtain x0 xs where stack: "stack = x0 # xs" and rd0: "read_array io p0 = Inr x0"
    using rds by (cases stack) auto
  have s0: "shape x0 = s" using shp stack by simp
  have z: "shape (zeros s) = s" "wf_array (zeros s)"
    by (simp_all add: zeros_def wf_array_def)
  have init: "\<forall>i<size3 s. vals (zeros s) ! i = naive_mean (column [] i)
            \<and> vals (zeros s) ! i = (\<Sum>y\<leftarrow>column [] i. (y - naive_mean (column [] i))\<^sup>2)"
    by (simp add: zeros_def column_def naive_mean_def)
  have loop: "welford_loop io paths (0, zeros s, zeros s)
    = Inr (length stack,
        \<lparr>shape = s, vals = map (\<lambda>i. naive_mean (column stack i)) [0..<size3 s]\<rparr>,
        \<lparr>shape = s, vals = map (\<lambda>i. \<Sum>y\<leftarrow>column stack i.
              (y - naive_mean (column stack i))\<^sup>2) [0..<size3 s]\<rparr>)"
    using welford_loop_stack [OF rds shp z(1) z(2) z(1) z(2) init] by simp
  have "calculate_online_stats_3d io (p0 # ps)
      = (case welford_loop io (p0 # ps) (0, zeros s, zeros s) of
           Inl e \<Rightarrow> Inl e
         | Inr (n, mean_arr, S_arr) \<Rightarrow>
             let variance_arr =
                   (if n < 2 then zeros (shape mean_arr)
                    else S_arr\<lparr>vals := map (\<lambda>s. s / real (n - 1)) (vals S_arr)\<rparr>)
             in Inr (Some mean_arr, Some variance_arr, n))"
    by (simp add: calculate_online_stats_3d_def rd0 s0 del: welford_loop.simps)
  then show "calculate_online_stats_3d io paths
           = Inr (Some (two_pass_mean s stack),
                  Some (if 2 \<le> length stack then two_pass_variance s stack else zeros s),
                  length stack)"
    unfolding paths [symmetric] loop
    by (simp add: two_pass_mean_def two_pass_variance_def naive_variance_def column_def)
next
  show "welford_loop io [p] (k, mean_arr, S_arr)
           = Inr (k + 1,
               \<lparr>shape = s, vals = map (\<lambda>i. vals mean_arr ! i
                    + (vals x ! i - vals mean_arr ! i) / real (k + 1)) [0..<size3 s]\<rparr>,
               \<lparr>shape = s, vals = map (\<lambda>i. vals S_arr ! i
                    + (vals x ! i - vals mean_arr ! i)
                      * (vals x ! i - (vals mean_arr ! i
                           + (vals x ! i - vals mean_arr ! i) / real (k + 1)))) [0..<size3 s]\<rparr>)"
    using welford_step [OF rd x m S, of "[]" k] by simp
qed


theorem welford_equals_two_pass_witness:
  "calculate_online_stats_3d
     (mem_source [(''a.npy'', \<lparr>shape = (2, 1, 1), vals = [1, 3]\<rparr>),
                  (''b.nrrd'', \<lparr>shape = (2, 1, 1), vals = [5, 4]\<rparr>)])
     [''a.npy'', ''b.nrrd'']
   = Inr (Some \<lparr>shape = (2, 1, 1), vals = [3, 7 / 2]\<rparr>,
          Some \<lparr>shape = (2, 1, 1), vals = [8, 1 / 2]\<rparr>, 2)
   \<and> welford_loop
     (mem_source [(''a.npy'', \<lparr>shape = (2, 1, 1), vals = [1, 3]\<rparr>),
                  (''b.nrrd'', \<lparr>shape = (2, 1, 1), vals = [5, 4]\<rparr>)])
     [''b.nrrd''] (1, \<lparr>shape = (2, 1, 1), vals = [1, 3]\<rparr>, \<lparr>shape = (2, 1, 1), vals = [0, 0]\<rparr>)
   = Inr (2, \<lparr>shape = (2, 1, 1), vals = [3, 7 / 2]\<rparr>, \<lparr>shape = (2, 1, 1), vals = [8, 1 / 2]\<rparr>)"
proof -
  let ?A = "\<lparr>shape = (2, 1, 1), vals = [1, 3 :: real]\<rparr>"
  let ?B = "\<lparr>shape = (2, 1, 1), vals = [5, 4 :: real]\<rparr>"
  let ?Z = "\<lparr>shape = (2, 1, 1), vals = [0, 0 :: real]\<rparr>"
  let ?io = "mem_source [(''a.npy'', ?A), (''b.nrrd'', ?B)]"
  have h1: "[''a.npy'', ''b.nrrd''] \<noteq> []" by simp
  have h2: "map (read_array ?io) [''a.npy'', ''b.nrrd''] = map Inr [?A, ?B]"
    by (simp add: read_array_def mem_source_def endswith_def)
  have h3: "\<forall>a\<in>set [?A, ?B]. shape a = (2, 1, 1) \<and> wf_array a"
    by (simp add: wf_array_def)
  have h4: "read_array ?io ''b.nrrd'' = Inr ?B"
    by (simp add: read_array_def mem_source_def endswith_def)
  have h5: "shape ?B = (2, 1, 1)" "wf_array ?B" "shape ?A = (2, 1, 1)" "wf_array ?A"
    "shape ?Z = (2, 1, 1)" "wf_array ?Z"
    by (simp_all add: wf_array_def)
  have m: "two_pass_mean (2, 1, 1) [?A, ?B] = \<lparr>shape = (2, 1, 1), vals = [3, 7 / 2]\<rparr>"
    by (simp add: two_pass_mean_def naive_mean_def column_def upt_rec eval_nat_numeral)
  have v: "two_pass_variance (2, 1, 1) [?A, ?B] = \<lparr>shape = (2, 1, 1), vals = [8, 1 / 2]\<rparr>"
    by (simp add: two_pass_variance_def naive_variance_def naive_mean_def column_def
          upt_rec eval_nat_numeral power2_eq_square)
  from welford_equals_two_pass [OF h1 h2 h3 h4 h5, of 1] m v
  show ?thesis by (simp add: upt_rec eval_nat_numeral)
qed

subsection \<open>Arrays of different shapes\<close>

lemma ufunc2_error: "ufunc2 f x y = Inl e \<Longrightarrow> e = BroadcastError"
  by (auto simp: ufunc2_def split: option.splits prod.splits)

lemma iadd_error: "iadd t y = Inl e \<Longrightarrow> e = BroadcastError"
  by (auto simp: iadd_def split: option.splits)

lemma broadcast_to_Some_iff:
  "(\<exists>ys. broadcast_to s v = Some ys) = broadcastable_to s (shape v)"
  by (cases s; cases "shape v") auto

lemma iadd_Inr:
  "iadd t y = Inr t' \<Longrightarrow> shape t' = shape t \<and> broadcastable_to (shape t) (shape y)"
  using broadcast_to_Some_iff [of "shape t" y]
  by (auto simp: iadd_def split: option.splits)

lemma ufunc2_Inr:
  "ufunc2 f x y = Inr z \<Longrightarrow> broadcast_shapes (shape x) (shape y) = Some (shape z)"
  by (auto simp: ufunc2_def split: option.splits prod.splits)

lemma bdim_back: "bdim a' a = Some x \<Longrightarrow> x = a \<or> x = 1 \<Longrightarrow> a' = a \<or> a' = 1"
  by (auto simp: bdim_def split: if_splits)

lemma broadcast_shapes_back:
  "broadcast_shapes sx sy = Some sz \<Longrightarrow> broadcastable_to sy sz \<Longrightarrow> broadcastable_to sy sx"
  by (cases sx; cases sy; cases sz) (auto split: option.splits dest: bdim_back)

lemma welford_loop_Cons_cases:
  assumes "read_array io q = Inr cur"
  shows "welford_loop io (q # qs) (n, m, S) = Inl BroadcastError
     \<or> (\<exists>m' S'. shape m' = shape m \<and> shape S' = shape S
           \<and> broadcastable_to (shape m) (shape cur)
           \<and> welford_loop io (q # qs) (n, m, S) = welford_loop io qs (n + 1, m', S'))"
proof (cases "ufunc2 (-) cur m")
  case (Inl e)
  then show ?thesis using assms ufunc2_error [OF Inl] by simp
next
  case d: (Inr delta)
  show ?thesis
  proof (cases "iadd m (div_scalar delta (n + 1))")
    case (Inl e)
    then show ?thesis using assms d iadd_error [OF Inl] by simp
  next
    case m': (Inr m')
    have b: "broadcastable_to (shape m) (shape cur)"
      using iadd_Inr [OF m'] ufunc2_Inr [OF d] broadcast_shapes_back
      by (simp add: div_scalar_def)
    show ?thesis
    proof (cases "ufunc2 (-) cur m'")
      case (Inl e)
      then show ?thesis using assms d m' ufunc2_error [OF Inl] by simp
    next
      case d2: (Inr delta2)
      show ?thesis
      proof (cases "ufunc2 (*) delta delta2")
        case (Inl e)
        then show ?thesis using assms d m' d2 ufunc2_error [OF Inl] by simp
      next
        case dd: (Inr dd)
        show ?thesis
        proof (cases "iadd S dd")
          case (Inl e)
          then show ?thesis using assms d m' d2 dd iadd_error [OF Inl] by simp
        next
          case S': (Inr S')
          have "welford_loop io (q # qs) (n, m, S) = welford_loop io qs (n + 1, m', S')"
            using assms d m' d2 dd S' by simp
          then show ?thesis using iadd_Inr [OF m'] iadd_Inr [OF S'] b by blast
        qed
      qed
    qed
  qed
qed

lemma welford_loop_mismatch:
  assumes "\<forall>q\<in>set paths. \<exists>v. read_array io q = Inr v"
    and "p \<in> set paths" and "read_array io p = Inr v"
    and "\<not> broadcastable_to (shape mean_arr) (shape v)"
  shows "welford_loop io paths (n, mean_arr, S_arr) = Inl BroadcastError"
  using assms
proof (induction paths arbitrary: n mean_arr S_arr)
  case Nil
  then show ?case by simp
next
  case (Cons q qs)
  from Cons.prems(1) obtain cur where cur: "read_array io q = Inr cur" by auto
  from welford_loop_Cons_cases [OF cur, of qs n mean_arr S_arr]
  show ?case
  proof
    assume "welford_loop io (q # qs) (n, mean_arr, S_arr) = Inl BroadcastError"
    then show ?thesis .
  next
    assume "\<exists>m' S'. shape m' = shape mean_arr \<and> shape S' = shape S_arr
           \<and> broadcastable_to (shape mean_arr) (shape cur)
           \<and> welford_loop io (q # qs) (n, mean_arr, S_arr) = welford_loop io qs (n + 1, m', S')"
    then obtain m' S' where sm: "shape m' = shape mean_arr"
      and bc: "broadcastable_to (shape mean_arr) (shape cur)"
      and eq: "welford_loop io (q # qs) (n, mean_arr, S_arr) = welford_loop io qs (n + 1, m', S')"
      by blast
    have "p \<noteq> q" using bc cur Cons.prems(3,4) by auto
    then have "p \<in> set qs" using Cons.prems(2) by simp
    then have "welford_loop io qs (n + 1, m', S') = Inl BroadcastError"
      using Cons.prems(1,3,4) sm by (intro Cons.IH) simp_all
    then show ?thesis using eq by simp
  qed
qed

text \<open>
  C6 (amended): the accumulator has no shape check of its own.  When every read succeeds
  and some array's shape cannot be broadcast to the shape of the first array, the
  accumulation stops with numpy's broadcasting error, which names no path, and returns
  no statistics; a comparison with that group on either side fails as well.
\<close>

theorem shape_mismatch_broadcast_error:
  assumes "read_array io (hd paths) = Inr first"
    and "\<forall>q\<in>set paths. \<exists>v. read_array io q = Inr v"
    and "p \<in> set paths" and "read_array io p = Inr v"
    and "\<not> broadcastable_to (shape first) (shape v)"
  shows "calculate_online_stats_3d io paths = Inl BroadcastError
       \<and> compare_groups_voxelwise sf io paths other_paths alpha = Inl BroadcastError
       \<and> isl (compare_groups_voxelwise sf io other_paths paths alpha)"
proof -
  obtain p0 ps where paths: "paths = p0 # ps" using assms(3) by (cases paths) auto
  have "welford_loop io paths (0, zeros (shape first), zeros (shape first)) = Inl BroadcastError"
    using assms(2,3,4,5) by (intro welford_loop_mismatch [where p = p and v = v]) (simp_all add: zeros_def)
  then have acc: "calculate_online_stats_3d io paths = Inl BroadcastError"
    using assms(1) paths by (simp add: calculate_online_stats_3d_def del: welford_loop.simps)
  have a: "compare_groups_voxelwise sf io paths other_paths alpha = Inl BroadcastError"
    by (simp add: compare_groups_voxelwise_def acc)
  have b: "isl (compare_groups_voxelwise sf io other_paths paths alpha)"
    by (simp add: compare_groups_voxelwise_def acc split: sum.splits prod.splits)
  from acc a b show ?thesis by simp
qed

theorem shape_mismatch_broadcast_error_witness:
  "calculate_online_stats_3d
     (mem_source [(''a.npy'', \<lparr>shape = (2, 1, 1), vals = [1, 3]\<rparr>),
                  (''b.npy'', \<lparr>shape = (1, 1, 1), vals = [5]\<rparr>)])
     [''b.npy'', ''a.npy''] = Inl BroadcastError
   \<and> compare_groups_voxelwise (\<lambda>df t. 1 / (1 + t))
     (mem_source [(''a.npy'', \<lparr>shape = (2, 1, 1), vals = [1, 3]\<rparr>),
                  (''b.npy'', \<lparr>shape = (1, 1, 1), vals = [5]\<rparr>)])
     [''b.npy'', ''a.npy''] [''a.npy'', ''a.npy''] (1 / 20) = Inl BroadcastError
   \<and> isl (compare_groups_voxelwise (\<lambda>df t. 1 / (1 + t))
     (mem_source [(''a.npy'', \<lparr>shape = (2, 1, 1), vals = [1, 3]\<rparr>),
                  (''b.npy'', \<lparr>shape = (1, 1, 1), vals = [5]\<rparr>)])
     [''a.npy'', ''a.npy''] [''b.npy'', ''a.npy''] (1 / 20))"
proof -
  let ?A = "\<lparr>shape = (2, 1, 1), vals = [1, 3 :: real]\<rparr>"
  let ?B = "\<lparr>shape = (1, 1, 1), vals = [5 :: real]\<rparr>"
  let ?io = "mem_source [(''a.npy'', ?A), (''b.npy'', ?B)]"
  have h1: "read_array ?io (hd [''b.npy'', ''a.npy'']) = Inr ?B"
    by (simp add: read_array_def mem_source_def endswith_def)
  have h2: "\<forall>q\<in>set [''b.npy'', ''a.npy'']. \<exists>v. read_array ?io q = Inr v"
    by (simp add: read_array_def mem_source_def endswith_def)
  have h3: "''a.npy'' \<in> set [''b.npy'', ''a.npy'']" by simp
  have h4: "read_array ?io ''a.npy'' = Inr ?A"
    by (simp add: read_array_def mem_source_def endswith_def)
  have h5: "\<not> broadcastable_to (shape ?B) (shape ?A)" by simp
  show ?thesis
    by (rule shape_mismatch_broadcast_error [OF h1 h2 h3 h4 h5])
qed

text \<open>
  C6 (as stated): every path sequence with an array whose shape differs from the first
  array's shape fails with a shape-mismatch error naming the path.  On the code this
  is false: an array of shape \<open>(1, 1, 1)\<close> after one of shape \<open>(2, 1, 1)\<close> is broadcast
  and folded into the statistics.
\<close>

theorem shape_mismatch_accepted_counterexample:
  "calculate_online_stats_3d
     (mem_source [(''a.npy'', \<lparr>shape = (2, 1, 1), vals = [1, 3]\<rparr>),
                  (''b.npy'', \<lparr>shape = (1, 1, 1), vals = [5]\<rparr>)])
     [''a.npy'', ''b.npy'']
   = Inr (Some \<lparr>shape = (2, 1, 1), vals = [3, 4]\<rparr>,
          Some \<lparr>shape = (2, 1, 1), vals = [8, 2]\<rparr>, 2)"
  by code_simp

section \<open>Properties of the comparator\<close>

text \<open>
  C8: when both accumulations return, \<open>compare_groups_voxelwise\<close> fails with the
  insufficient-samples error exactly when one of the two counts is below 2; with both
  counts at least 2 that error is not raised.
\<close>

theorem insufficient_samples_iff:
  "calculate_online_stats_3d io group_a_paths = Inr (mean_A, var_A, n_A) \<Longrightarrow>
   calculate_online_stats_3d io group_b_paths = Inr (mean_B, var_B, n_B) \<Longrightarrow>
   (compare_groups_voxelwise sf io group_a_paths group_b_paths alpha = Inl InsufficientSamples)
     = (n_A < 2 \<or> n_B < 2)"
  by (auto simp add: compare_groups_voxelwise_def ttest_ind_from_stats_def ufunc2_def Let_def
           split: sum.splits option.splits prod.splits)

theorem insufficient_samples_iff_witness:
  "calculate_online_stats_3d (mem_source [(''a.npy'', \<lparr>shape = (1, 1, 1), vals = [1]\<rparr>)])
       [''a.npy'']
     = Inr (Some \<lparr>shape = (1, 1, 1), vals = [1]\<rparr>, Some \<lparr>shape = (1, 1, 1), vals = [0]\<rparr>, 1)
   \<and> calculate_online_stats_3d (mem_source [(''a.npy'', \<lparr>shape = (1, 1, 1), vals = [1]\<rparr>)])
       [''a.npy'', ''a.npy'']
     = Inr (Some \<lparr>shape = (1, 1, 1), vals = [1]\<rparr>, Some \<lparr>shape = (1, 1, 1), vals = [0]\<rparr>, 2)
   \<and> compare_groups_voxelwise (\<lambda>df t. 1 / (1 + t))
         (mem_source [(''a.npy'', \<lparr>shape = (1, 1, 1), vals = [1]\<rparr>)])
         [''a.npy''] [''a.npy'', ''a.npy''] (1 / 20)
       = Inl InsufficientSamples"
proof -
  let ?io = "mem_source [(''a.npy'', \<lparr>shape = (1, 1, 1), vals = [1]\<rparr>)]"
  have a: "calculate_online_stats_3d ?io [''a.npy'']
     = Inr (Some \<lparr>shape = (1, 1, 1), vals = [1]\<rparr>, Some \<lparr>shape = (1, 1, 1), vals = [0]\<rparr>, 1)"
    by code_simp
  have b: "calculate_online_stats_3d ?io [''a.npy'', ''a.npy'']
     = Inr (Some \<lparr>shape = (1, 1, 1), vals = [1]\<rparr>, Some \<lparr>shape = (1, 1, 1), vals = [0]\<rparr>, 2)"
    by code_simp
  from insufficient_samples_iff [OF a b, of "\<lambda>df t. 1 / (1 + t)" "1 / 20"] a b
  show ?thesis by simp
qed

text \<open>
  C10: whenever the comparison returns, its \<open>t_statistics\<close> and \<open>p_values_uncorrected\<close>
  volumes contain no NaN at any voxel: the replacement after the t-test is applied to
  every NaN, whatever the t-test returned.
\<close>

theorem no_nan_in_outputs:
  "compare_groups_voxelwise sf io group_a_paths group_b_paths alpha = Inr res \<Longrightarrow>
   NaN \<notin> set (vals (t_statistics res)) \<and> NaN \<notin> set (vals (p_values_uncorrected res))"
  by (auto simp add: compare_groups_voxelwise_def replace_nan_def Let_def
           split: sum.splits option.splits prod.splits if_splits)

theorem no_nan_in_outputs_witness:
  "compare_groups_voxelwise (\<lambda>df t. 1 / (1 + t))
     (mem_source [(''a.npy'', \<lparr>shape = (1, 1, 1), vals = [1]\<rparr>)])
     [''a.npy'', ''a.npy''] [''a.npy'', ''a.npy''] (1 / 20)
   = Inr \<lparr>t_statistics = \<lparr>shape = (1, 1, 1), vals = [Fin 0]\<rparr>,
          p_values_uncorrected = \<lparr>shape = (1, 1, 1), vals = [Fin 1]\<rparr>,
          p_values_corrected_fdr = \<lparr>shape = (1, 1, 1), vals = [Fin 1]\<rparr>,
          significant_mask_fdr = \<lparr>shape = (1, 1, 1), vals = [False]\<rparr>,
          mean_diff = \<lparr>shape = (1, 1, 1), vals = [0]\<rparr>\<rparr>
   \<and> NaN \<notin> set [Fin 0] \<and> NaN \<notin> set [Fin 1]"
proof -
  let ?io = "mem_source [(''a.npy'', \<lparr>shape = (1, 1, 1), vals = [1]\<rparr>)]"
  have a: "calculate_online_stats_3d ?io [''a.npy'', ''a.npy'']
     = Inr (Some \<lparr>shape = (1, 1, 1), vals = [1]\<rparr>, Some \<lparr>shape = (1, 1, 1), vals = [0]\<rparr>, 2)"
    by code_simp
  have f: "fdrcorrection [Fin 1] (1 / 20) = ([False], [Fin 1])"
    by code_simp
  have t: "ttest_ind_from_stats (\<lambda>df t. 1 / (1 + t)) \<lparr>shape = (1, 1, 1), vals = [1]\<rparr>
             (np_sqrt \<lparr>shape = (1, 1, 1), vals = [0]\<rparr>) 2
             \<lparr>shape = (1, 1, 1), vals = [1]\<rparr> (np_sqrt \<lparr>shape = (1, 1, 1), vals = [0]\<rparr>) 2
           = Inr (\<lparr>shape = (1, 1, 1), vals = [NaN]\<rparr>, \<lparr>shape = (1, 1, 1), vals = [NaN]\<rparr>)"
    by (simp add: ttest_ind_from_stats_def np_sqrt_def zip_arrays_def ufunc2_def bdim_def bidx_def)
  have d: "ufunc2 (-) \<lparr>shape = (1, 1, 1), vals = [1 :: real]\<rparr> \<lparr>shape = (1, 1, 1), vals = [1]\<rparr>
           = Inr \<lparr>shape = (1, 1, 1), vals = [0]\<rparr>"
    by (simp add: ufunc2_def bdim_def bidx_def)
  have h: "compare_groups_voxelwise (\<lambda>df t. 1 / (1 + t)) ?io
     [''a.npy'', ''a.npy''] [''a.npy'', ''a.npy''] (1 / 20)
   = Inr \<lparr>t_statistics = \<lparr>shape = (1, 1, 1), vals = [Fin 0]\<rparr>,
          p_values_uncorrected = \<lparr>shape = (1, 1, 1), vals = [Fin 1]\<rparr>,
          p_values_corrected_fdr = \<lparr>shape = (1, 1, 1), vals = [Fin 1]\<rparr>,
          significant_mask_fdr = \<lparr>shape = (1, 1, 1), vals = [False]\<rparr>,
          mean_diff = \<lparr>shape = (1, 1, 1), vals = [0]\<rparr>\<rparr>"
    unfolding compare_groups_voxelwise_def a
    using t d f by (simp add: replace_nan_def flatten_def reshape_def Let_def)
  from no_nan_in_outputs [OF h] h show ?thesis by simp
qed

text \<open>
  C2: at every voxel where both groups have zero variance the comparison yields
  \<open>t = 0\<close> and \<open>p = 1\<close>, with no NaN or infinity in the output.  The code replaces NaN
  only: two constant groups with different values, \<open>1\<close> and \<open>2\<close>, have a zero denominator
  and a non-zero numerator, and the infinite statistic with its p-value 0 is returned.
\<close>

theorem zero_variance_distinct_means_infinite:
  "compare_groups_voxelwise sf
     (mem_source [(''a.npy'', \<lparr>shape = (1, 1, 1), vals = [1]\<rparr>),
                  (''b.npy'', \<lparr>shape = (1, 1, 1), vals = [2]\<rparr>)])
     [''a.npy'', ''a.npy''] [''b.npy'', ''b.npy''] (1 / 20)
   = Inr \<lparr>t_statistics = \<lparr>shape = (1, 1, 1), vals = [NInf]\<rparr>,
          p_values_uncorrected = \<lparr>shape = (1, 1, 1), vals = [Fin 0]\<rparr>,
          p_values_corrected_fdr = \<lparr>shape = (1, 1, 1), vals = [Fin 0]\<rparr>,
          significant_mask_fdr = \<lparr>shape = (1, 1, 1), vals = [True]\<rparr>,
          mean_diff = \<lparr>shape = (1, 1, 1), vals = [1]\<rparr>\<rparr>"
proof -
  let ?io = "(mem_source [(''a.npy'', \<lparr>shape = (1, 1, 1), vals = [1]\<rparr>),
                  (''b.npy'', \<lparr>shape = (1, 1, 1), vals = [2]\<rparr>)])"
  have a: "calculate_online_stats_3d ?io [''a.npy'', ''a.npy'']
     = Inr (Some \<lparr>shape = (1, 1, 1), vals = [1]\<rparr>, Some \<lparr>shape = (1, 1, 1), vals = [0]\<rparr>, 2)"
    by code_simp
  have b: "calculate_online_stats_3d ?io [''b.npy'', ''b.npy'']
     = Inr (Some \<lparr>shape = (1, 1, 1), vals = [2]\<rparr>, Some \<lparr>shape = (1, 1, 1), vals = [0]\<rparr>, 2)"
    by code_simp
  have f: "fdrcorrection [Fin 0] (1 / 20) = ([True], [Fin 0])"
    by code_simp
  have t: "ttest_ind_from_stats sf \<lparr>shape = (1, 1, 1), vals = [1]\<rparr>
             (np_sqrt \<lparr>shape = (1, 1, 1), vals = [0]\<rparr>) 2
             \<lparr>shape = (1, 1, 1), vals = [2]\<rparr> (np_sqrt \<lparr>shape = (1, 1, 1), vals = [0]\<rparr>) 2
           = Inr (\<lparr>shape = (1, 1, 1), vals = [NInf]\<rparr>, \<lparr>shape = (1, 1, 1), vals = [Fin 0]\<rparr>)"
    by (simp add: ttest_ind_from_stats_def np_sqrt_def zip_arrays_def ufunc2_def bdim_def bidx_def)
  have d: "ufunc2 (-) \<lparr>shape = (1, 1, 1), vals = [2 :: real]\<rparr> \<lparr>shape = (1, 1, 1), vals = [1]\<rparr>
           = Inr \<lparr>shape = (1, 1, 1), vals = [1]\<rparr>"
    by (simp add: ufunc2_def bdim_def bidx_def)
  show ?thesis
    unfolding compare_groups_voxelwise_def a b
    using t d f by (simp add: replace_nan_def flatten_def reshape_def Let_def)
qed


subsection \<open>Swapping the groups\<close>

lemma bdim_commute: "bdim a b = bdim b a"
  by (auto simp: bdim_def)

lemma broadcast_shapes_commute: "broadcast_shapes s s' = broadcast_shapes s' s"
proof -
  obtain a b c where s: "s = (a, b, c)" by (cases s) auto
  obtain a' b' c' where s': "s' = (a', b', c')" by (cases s') auto
  show ?thesis
    unfolding s s' broadcast_shapes.simps
    by (simp only: bdim_commute [of a a'] bdim_commute [of b b'] bdim_commute [of c c'])
qed

lemma map2_swap: "map2 (\<lambda>b a. f a b) ys xs = map2 f xs ys"
  by (induction xs ys rule: list_induct2') auto

lemma map2_comp: "map2 (\<lambda>a b. g (f a b)) xs ys = map g (map2 f xs ys)"
  by (induction xs ys rule: list_induct2') auto


lemma ufunc2_swap: "ufunc2 (\<lambda>b a. f a b) y x = ufunc2 f x y"
proof -
  have "broadcast_shapes (shape y) (shape x) = broadcast_shapes (shape x) (shape y)"
    by (rule broadcast_shapes_commute)
  then show ?thesis
    by (auto simp: ufunc2_def map2_swap [of f] split: option.splits)
qed

lemma ufunc2_map:
  "ufunc2 (\<lambda>a b. g (f a b)) x y
     = (case ufunc2 f x y of Inl e \<Rightarrow> Inl e
        | Inr z \<Rightarrow> Inr \<lparr>shape = shape z, vals = map g (vals z)\<rparr>)"
  by (auto simp: ufunc2_def map2_comp [of g f] split: option.splits)


lemma welch_voxel_swap:
  "welch_voxel sf n2 n1 y x = (case welch_voxel sf n1 n2 x y of (t, p) \<Rightarrow> (fl_neg t, p))"
proof -
  obtain m1 s1 where x: "x = (m1, s1)" by (cases x) auto
  obtain m2 s2 where y: "y = (m2, s2)" by (cases y) auto
  show ?thesis
  proof (cases "\<exists>r1 r2. s1 = Fin r1 \<and> s2 = Fin r2")
    case True
    then obtain r1 r2 where r: "s1 = Fin r1" "s2 = Fin r2" by blast
    define vn1 where "vn1 = r1\<^sup>2 / real n1"
    define vn2 where "vn2 = r2\<^sup>2 / real n2"
    define dfden where "dfden = vn1\<^sup>2 / real (n1 - 1) + vn2\<^sup>2 / real (n2 - 1)"
    define denom where "denom = sqrt (vn1 + vn2)"
    define d where "d = m1 - m2"
    have c1: "vn2\<^sup>2 / real (n2 - 1) + vn1\<^sup>2 / real (n1 - 1) = dfden"
      by (simp add: dfden_def)
    have c2: "vn2 + vn1 = vn1 + vn2" by simp
    have c3: "m2 - m1 = - d" by (simp add: d_def)
    have c4: "\<bar>- d / denom\<bar> = \<bar>d / denom\<bar>" by simp
    have lhs: "welch_voxel sf n2 n1 (m2, Fin r2) (m1, Fin r1)
       = (if denom = 0
         then (if - d = 0 then (NaN, NaN)
               else if 0 < - d then (PInf, Fin 0) else (NInf, Fin 0))
         else (Fin (- d / denom), Fin (sf (if dfden = 0 then 1 else (vn1 + vn2)\<^sup>2 / dfden) \<bar>- d / denom\<bar>)))"
      unfolding welch_voxel.simps Let_def vn1_def [symmetric] vn2_def [symmetric] c1 c2 c3
        denom_def [symmetric] ..
    have rhs: "welch_voxel sf n1 n2 (m1, Fin r1) (m2, Fin r2)
       = (if denom = 0
         then (if d = 0 then (NaN, NaN)
               else if 0 < d then (PInf, Fin 0) else (NInf, Fin 0))
         else (Fin (d / denom), Fin (sf (if dfden = 0 then 1 else (vn1 + vn2)\<^sup>2 / dfden) \<bar>d / denom\<bar>)))"
      unfolding welch_voxel.simps Let_def vn1_def [symmetric] vn2_def [symmetric]
        dfden_def [symmetric] denom_def [symmetric] d_def [symmetric] ..
    show ?thesis unfolding x y r lhs rhs c4
      by auto
  next
    case False
    then show ?thesis unfolding x y
      by (cases s1; cases s2) simp_all
  qed
qed


lemma ttest_swap:
  "ttest_ind_from_stats sf m2 s2 n2 m1 s1 n1
     = (case ttest_ind_from_stats sf m1 s1 n1 m2 s2 n2 of Inl e \<Rightarrow> Inl e
        | Inr (t, p) \<Rightarrow> Inr (t\<lparr>vals := map fl_neg (vals t)\<rparr>, p))"
proof -
  let ?N = "\<lambda>tp. case tp of (t, p) \<Rightarrow> (fl_neg t, p)"
  have "welch_voxel sf n2 n1 = (\<lambda>y x. ?N (welch_voxel sf n1 n2 x y))"
    by (intro ext) (rule welch_voxel_swap)
  then have "ufunc2 (welch_voxel sf n2 n1) (zip_arrays m2 s2) (zip_arrays m1 s1)
      = ufunc2 (\<lambda>x y. ?N (welch_voxel sf n1 n2 x y)) (zip_arrays m1 s1) (zip_arrays m2 s2)"
    using ufunc2_swap [of "\<lambda>x y. ?N (welch_voxel sf n1 n2 x y)" "zip_arrays m2 s2" "zip_arrays m1 s1"]
    by simp
  also have "\<dots> = (case ufunc2 (welch_voxel sf n1 n2) (zip_arrays m1 s1) (zip_arrays m2 s2) of
        Inl e \<Rightarrow> Inl e
      | Inr z \<Rightarrow> Inr \<lparr>shape = shape z, vals = map ?N (vals z)\<rparr>)"
    by (rule ufunc2_map)
  finally show ?thesis
    by (simp add: ttest_ind_from_stats_def comp_def case_prod_unfold split: sum.splits)
qed

lemma mean_diff_swap:
  "ufunc2 (-) (x :: real ndarray) y
     = (case ufunc2 (-) y x of Inl e \<Rightarrow> Inl e
        | Inr z \<Rightarrow> Inr (z\<lparr>vals := map uminus (vals z)\<rparr>))"
proof -
  have "((-) :: real \<Rightarrow> real \<Rightarrow> real) = (\<lambda>b a. - (a - b))" by (intro ext) simp
  then have "ufunc2 (-) x y = ufunc2 (\<lambda>a b. - (a - b)) y x"
    using ufunc2_swap [of "\<lambda>a b. - (a - b)" x y] by simp
  also have "\<dots> = (case ufunc2 (-) y x of Inl e \<Rightarrow> Inl e
        | Inr z \<Rightarrow> Inr \<lparr>shape = shape z, vals = map uminus (vals z)\<rparr>)"
    by (rule ufunc2_map)
  finally show ?thesis by (simp split: sum.splits)
qed

lemma replace_nan_neg:
  "replace_nan (Fin 0) (t\<lparr>vals := map fl_neg (vals t)\<rparr>)
     = (replace_nan (Fin 0) t)\<lparr>vals := map fl_neg (vals (replace_nan (Fin 0) t))\<rparr>"
proof -
  have "(if fl_neg x = NaN then Fin 0 else fl_neg x) = fl_neg (if x = NaN then Fin 0 else x)" for x
    by (cases x) simp_all
  then show ?thesis by (simp add: replace_nan_def comp_def)
qed

lemma fl_abs_neg: "fl_abs (fl_neg x) = fl_abs x"
  by (cases x) simp_all

text \<open>
  C7: whenever the comparison of groups A and B returns, the comparison of B and A
  returns the same result with the t-statistic volume and the mean-difference volume
  negated voxel by voxel; the uncorrected and corrected p-values and the significance
  mask are the same, and so is the absolute value of the t-statistic.
\<close>

theorem swap_groups_negates:
  assumes "compare_groups_voxelwise sf io group_a_paths group_b_paths alpha = Inr res"
  shows "compare_groups_voxelwise sf io group_b_paths group_a_paths alpha
           = Inr (res\<lparr>t_statistics := (t_statistics res)\<lparr>vals := map fl_neg (vals (t_statistics res))\<rparr>,
                      mean_diff := (mean_diff res)\<lparr>vals := map uminus (vals (mean_diff res))\<rparr>\<rparr>)
       \<and> map fl_abs (map fl_neg (vals (t_statistics res))) = map fl_abs (vals (t_statistics res))"
proof
  from assms obtain mA vA nA mB vB nB t0 p0 md where
    cA: "calculate_online_stats_3d io group_a_paths = Inr (Some mA, Some vA, nA)" and
    cB: "calculate_online_stats_3d io group_b_paths = Inr (Some mB, Some vB, nB)" and
    n: "\<not> nA < 2" "\<not> nB < 2" and
    tt: "ttest_ind_from_stats sf mA (np_sqrt vA) nA mB (np_sqrt vB) nB = Inr (t0, p0)" and
    md: "ufunc2 (-) mB mA = Inr md"
    by (auto simp: compare_groups_voxelwise_def Let_def
             split: sum.splits option.splits prod.splits if_splits)
  have tt': "ttest_ind_from_stats sf mB (np_sqrt vB) nB mA (np_sqrt vA) nA
               = Inr (t0\<lparr>vals := map fl_neg (vals t0)\<rparr>, p0)"
    using ttest_swap [of sf mB "np_sqrt vB" nB mA "np_sqrt vA" nA] tt by simp
  have md': "ufunc2 (-) mA mB = Inr (md\<lparr>vals := map uminus (vals md)\<rparr>)"
    using mean_diff_swap [of mA mB] md by simp
  have r: "res = (let t_stats = replace_nan (Fin 0) t0;
                     p_values = replace_nan (Fin 1) p0;
                     original_shape = shape p_values;
                     p_values_flat = flatten p_values;
                     (rejected, p_values_corrected) = fdrcorrection p_values_flat alpha;
                     significant_mask = reshape rejected original_shape
                 in \<lparr>t_statistics = t_stats,
                     p_values_uncorrected = p_values,
                     p_values_corrected_fdr = reshape p_values_corrected original_shape,
                     significant_mask_fdr = significant_mask,
                     mean_diff = md\<rparr>)"
    using assms n unfolding compare_groups_voxelwise_def cA cB
    by (simp add: tt md Let_def split: prod.splits)
  show "compare_groups_voxelwise sf io group_b_paths group_a_paths alpha
           = Inr (res\<lparr>t_statistics := (t_statistics res)\<lparr>vals := map fl_neg (vals (t_statistics res))\<rparr>,
                      mean_diff := (mean_diff res)\<lparr>vals := map uminus (vals (mean_diff res))\<rparr>\<rparr>)"
    using n unfolding compare_groups_voxelwise_def cA cB r
    by (simp add: tt' md' Let_def replace_nan_neg split: prod.splits)
next
  show "map fl_abs (map fl_neg (vals (t_statistics res))) = map fl_abs (vals (t_statistics res))"
    by (simp add: fl_abs_neg comp_def)
qed


theorem swap_groups_negates_witness:
  "compare_groups_voxelwise (\<lambda>df t. 1 / (1 + t))
     (mem_source [(''a1.npy'', \<lparr>shape = (1, 1, 1), vals = [0]\<rparr>),
                  (''a2.npy'', \<lparr>shape = (1, 1, 1), vals = [6]\<rparr>),
                  (''b1.npy'', \<lparr>shape = (1, 1, 1), vals = [1]\<rparr>),
                  (''b2.npy'', \<lparr>shape = (1, 1, 1), vals = [9]\<rparr>)])
     [''a1.npy'', ''a2.npy''] [''b1.npy'', ''b2.npy''] (1 / 20)
   = Inr \<lparr>t_statistics = \<lparr>shape = (1, 1, 1), vals = [Fin (- 2 / 5)]\<rparr>,
          p_values_uncorrected = \<lparr>shape = (1, 1, 1), vals = [Fin (5 / 7)]\<rparr>,
          p_values_corrected_fdr = \<lparr>shape = (1, 1, 1), vals = [Fin (5 / 7)]\<rparr>,
          significant_mask_fdr = \<lparr>shape = (1, 1, 1), vals = [False]\<rparr>,
          mean_diff = \<lparr>shape = (1, 1, 1), vals = [2]\<rparr>\<rparr>
   \<and> compare_groups_voxelwise (\<lambda>df t. 1 / (1 + t))
     (mem_source [(''a1.npy'', \<lparr>shape = (1, 1, 1), vals = [0]\<rparr>),
                  (''a2.npy'', \<lparr>shape = (1, 1, 1), vals = [6]\<rparr>),
                  (''b1.npy'', \<lparr>shape = (1, 1, 1), vals = [1]\<rparr>),
                  (''b2.npy'', \<lparr>shape = (1, 1, 1), vals = [9]\<rparr>)])
     [''b1.npy'', ''b2.npy''] [''a1.npy'', ''a2.npy''] (1 / 20)
   = Inr \<lparr>t_statistics = \<lparr>shape = (1, 1, 1), vals = [Fin (2 / 5)]\<rparr>,
          p_values_uncorrected = \<lparr>shape = (1, 1, 1), vals = [Fin (5 / 7)]\<rparr>,
          p_values_corrected_fdr = \<lparr>shape = (1, 1, 1), vals = [Fin (5 / 7)]\<rparr>,
          significant_mask_fdr = \<lparr>shape = (1, 1, 1), vals = [False]\<rparr>,
          mean_diff = \<lparr>shape = (1, 1, 1), vals = [- 2]\<rparr>\<rparr>"
proof -
  let ?io = "mem_source [(''a1.npy'', \<lparr>shape = (1, 1, 1), vals = [0]\<rparr>),
                  (''a2.npy'', \<lparr>shape = (1, 1, 1), vals = [6]\<rparr>),
                  (''b1.npy'', \<lparr>shape = (1, 1, 1), vals = [1]\<rparr>),
                  (''b2.npy'', \<lparr>shape = (1, 1, 1), vals = [9]\<rparr>)]"
  have a: "calculate_online_stats_3d ?io [''a1.npy'', ''a2.npy'']
     = Inr (Some \<lparr>shape = (1, 1, 1), vals = [3]\<rparr>, Some \<lparr>shape = (1, 1, 1), vals = [18]\<rparr>, 2)"
    by code_simp
  have b: "calculate_online_stats_3d ?io [''b1.npy'', ''b2.npy'']
     = Inr (Some \<lparr>shape = (1, 1, 1), vals = [5]\<rparr>, Some \<lparr>shape = (1, 1, 1), vals = [32]\<rparr>, 2)"
    by code_simp
  have f: "fdrcorrection [Fin (5 / 7)] (1 / 20) = ([False], [Fin (5 / 7)])"
    by code_simp
  have sq: "sqrt 25 = 5"
    by (rule real_sqrt_unique) simp_all
  have t: "ttest_ind_from_stats (\<lambda>df t. 1 / (1 + t)) \<lparr>shape = (1, 1, 1), vals = [3]\<rparr>
             (np_sqrt \<lparr>shape = (1, 1, 1), vals = [18]\<rparr>) 2
             \<lparr>shape = (1, 1, 1), vals = [5]\<rparr> (np_sqrt \<lparr>shape = (1, 1, 1), vals = [32]\<rparr>) 2
           = Inr (\<lparr>shape = (1, 1, 1), vals = [Fin (- 2 / 5)]\<rparr>, \<lparr>shape = (1, 1, 1), vals = [Fin (5 / 7)]\<rparr>)"
    by (simp add: ttest_ind_from_stats_def np_sqrt_def zip_arrays_def ufunc2_def bdim_def bidx_def sq)
  have d: "ufunc2 (-) \<lparr>shape = (1, 1, 1), vals = [5 :: real]\<rparr> \<lparr>shape = (1, 1, 1), vals = [3]\<rparr>
           = Inr \<lparr>shape = (1, 1, 1), vals = [2]\<rparr>"
    by (simp add: ufunc2_def bdim_def bidx_def)
  have h: "compare_groups_voxelwise (\<lambda>df t. 1 / (1 + t)) ?io
     [''a1.npy'', ''a2.npy''] [''b1.npy'', ''b2.npy''] (1 / 20)
   = Inr \<lparr>t_statistics = \<lparr>shape = (1, 1, 1), vals = [Fin (- 2 / 5)]\<rparr>,
          p_values_uncorrected = \<lparr>shape = (1, 1, 1), vals = [Fin (5 / 7)]\<rparr>,
          p_values_corrected_fdr = \<lparr>shape = (1, 1, 1), vals = [Fin (5 / 7)]\<rparr>,
          significant_mask_fdr = \<lparr>shape = (1, 1, 1), vals = [False]\<rparr>,
          mean_diff = \<lparr>shape = (1, 1, 1), vals = [2]\<rparr>\<rparr>"
    unfolding compare_groups_voxelwise_def a b
    using t d f by (simp add: replace_nan_def flatten_def reshape_def Let_def)
  from swap_groups_negates [OF h] h show ?thesis by simp
qed

section \<open>Properties of the false-discovery-rate correction\<close>

lemma length_accumulate: "length (accumulate f xs) = length xs"
  by (induction f xs rule: accumulate.induct) simp_all

lemma accumulate_map:
  "(\<And>a b. f (g a) (g b) = g (h a b)) \<Longrightarrow> accumulate f (map g xs) = map g (accumulate h xs)"
  by (induction h xs rule: accumulate.induct) simp_all

lemma accumulate_min_le_iff:
  fixes a :: "'a :: linorder"
  shows "k < length xs \<Longrightarrow> (accumulate min xs ! k \<le> a) = (\<exists>j\<le>k. xs ! j \<le> a)"
proof (induction "min :: 'a \<Rightarrow> 'a \<Rightarrow> 'a" xs arbitrary: k rule: accumulate.induct)
  case 1
  then show ?case by simp
next
  case (2 x)
  then show ?case by simp
next
  case (3 x y ys)
  show ?case
  proof (cases k)
    case 0
    then show ?thesis by simp
  next
    case (Suc k')
    have "(accumulate min (min x y # ys) ! k' \<le> a) = (\<exists>j\<le>k'. (min x y # ys) ! j \<le> a)"
      using 3 Suc by simp
    also have "\<dots> = (\<exists>j\<le>Suc k'. (x # y # ys) ! j \<le> a)"
    proof
      assume "\<exists>j\<le>k'. (min x y # ys) ! j \<le> a"
      then obtain j where j: "j \<le> k'" "(min x y # ys) ! j \<le> a" by blast
      show "\<exists>j\<le>Suc k'. (x # y # ys) ! j \<le> a"
      proof (cases j)
        case 0
        then have "x \<le> a \<or> y \<le> a" using j by (simp add: min_le_iff_disj)
        then show ?thesis
        proof
          assume "x \<le> a" then show ?thesis by (intro exI [of _ 0]) simp
        next
          assume "y \<le> a" then show ?thesis by (intro exI [of _ 1]) simp
        qed
      next
        case (Suc j')
        then show ?thesis using j by (intro exI [of _ "Suc j"]) simp
      qed
    next
      assume "\<exists>j\<le>Suc k'. (x # y # ys) ! j \<le> a"
      then obtain j where j: "j \<le> Suc k'" "(x # y # ys) ! j \<le> a" by blast
      show "\<exists>j\<le>k'. (min x y # ys) ! j \<le> a"
      proof (cases j)
        case 0
        then show ?thesis using j by (intro exI [of _ 0]) (simp add: min_le_iff_disj)
      next
        case (Suc j')
        show ?thesis
        proof (cases j')
          case 0
          then show ?thesis using j Suc by (intro exI [of _ 0]) (simp add: min_le_iff_disj)
        next
          case (Suc j'')
          then show ?thesis using j \<open>j = Suc j'\<close> by (intro exI [of _ j']) simp
        qed
      qed
    qed
    finally show ?thesis using Suc by simp
  qed
qed

lemma accumulate_min_mono:
  fixes xs :: "'a :: linorder list"
  assumes "Suc k < length xs"
  shows "accumulate min xs ! Suc k \<le> accumulate min xs ! k"
proof -
  have "\<exists>j\<le>k. xs ! j \<le> accumulate min xs ! k"
    using accumulate_min_le_iff [of k xs "accumulate min xs ! k"] assms by simp
  then have "\<exists>j\<le>Suc k. xs ! j \<le> accumulate min xs ! k"
    using le_Suc_eq by blast
  then show ?thesis
    using accumulate_min_le_iff [of "Suc k" xs "accumulate min xs ! k"] assms by simp
qed

lemma fold_update_length:
  "length (fold (\<lambda>(i, x) out. out[i := x]) zs init) = length init"
  by (induction zs arbitrary: init) (auto split: prod.splits)

lemma fold_update_other:
  "j \<notin> fst ` set zs \<Longrightarrow> fold (\<lambda>(i, x) out. out[i := x]) zs init ! j = init ! j"
  by (induction zs arbitrary: init) (auto split: prod.splits)

lemma fold_update_nth:
  assumes "distinct idx" "length idx = length ys" "k < length idx" "idx ! k < length init"
  shows "fold (\<lambda>(i, x) out. out[i := x]) (zip idx ys) init ! (idx ! k) = ys ! k"
  using assms
proof (induction idx arbitrary: ys init k)
  case Nil
  then show ?case by simp
next
  case (Cons i idx)
  then obtain y ys' where ys: "ys = y # ys'" by (cases ys) auto
  show ?case
  proof (cases k)
    case 0
    have "i \<notin> fst ` set (zip idx ys')" using Cons.prems(1) by (auto dest: set_zip_leftD)
    then show ?thesis using 0 ys Cons.prems(4) by (simp add: fold_update_other)
  next
    case (Suc k')
    then show ?thesis using Cons ys by simp
  qed
qed

lemma fold_update_map:
  "map g (fold (\<lambda>(i, x) out. out[i := x]) (zip idx ys) init)
     = fold (\<lambda>(i, x) out. out[i := x]) (zip idx (map g ys)) (map g init)"
proof (induction idx arbitrary: ys init)
  case Nil
  then show ?case by simp
next
  case (Cons i idx)
  then show ?case by (cases ys) (simp_all add: map_update)
qed

lemma scatter_length: "length (scatter idx xs) = length xs"
  by (simp add: scatter_def fold_update_length)

lemma scatter_nth:
  assumes "distinct idx" "length idx = length xs" "k < length xs" "idx ! k < length xs"
  shows "scatter idx xs ! (idx ! k) = xs ! k"
  using assms by (simp add: scatter_def fold_update_nth)

lemma scatter_map: "scatter idx (map g xs) = map g (scatter idx xs)"
  by (simp add: scatter_def fold_update_map)


lemma set_nonzero: "set (nonzero bs) = {i. i < length bs \<and> bs ! i}"
  by (auto simp: nonzero_def)

lemma reject_step_up:
  "(if True \<in> set bs
    then let rejectmax = Max (set (nonzero bs))
         in replicate rejectmax True @ drop rejectmax bs
    else bs)
   = map (\<lambda>k. \<exists>j. k \<le> j \<and> j < length bs \<and> bs ! j) [0..<length bs]"
proof (cases "True \<in> set bs")
  case False
  then have "\<And>j. j < length bs \<Longrightarrow> \<not> bs ! j" by (metis nth_mem)
  then have "bs = map (\<lambda>k. \<exists>j. k \<le> j \<and> j < length bs \<and> bs ! j) [0..<length bs]"
    by (intro nth_equalityI) auto
  then show ?thesis using False by simp
next
  case True
  let ?K = "{i. i < length bs \<and> bs ! i}"
  define r where "r = Max ?K"
  have fin: "finite ?K" by simp
  have ne: "?K \<noteq> {}" using True by (auto simp: in_set_conv_nth)
  have rK: "r \<in> ?K" unfolding r_def using Max_in [OF fin ne] .
  have rmax: "\<And>j. j \<in> ?K \<Longrightarrow> j \<le> r" unfolding r_def using Max_ge [OF fin] .
  have r: "r < length bs" "bs ! r" using rK by simp_all
  have "replicate r True @ drop r bs
      = map (\<lambda>k. \<exists>j. k \<le> j \<and> j < length bs \<and> bs ! j) [0..<length bs]"
  proof (intro nth_equalityI)
    show "length (replicate r True @ drop r bs)
        = length (map (\<lambda>k. \<exists>j. k \<le> j \<and> j < length bs \<and> bs ! j) [0..<length bs])"
      using r by simp
  next
    fix k assume "k < length (replicate r True @ drop r bs)"
    then have k: "k < length bs" using r by simp
    show "(replicate r True @ drop r bs) ! k
        = map (\<lambda>k. \<exists>j. k \<le> j \<and> j < length bs \<and> bs ! j) [0..<length bs] ! k"
    proof (cases "k < r")
      case True
      then have "(replicate r True @ drop r bs) ! k" by (simp add: nth_append)
      moreover have "\<exists>j. k \<le> j \<and> j < length bs \<and> bs ! j"
        using True r by (intro exI [of _ r]) simp
      ultimately show ?thesis using k by simp
    next
      case False
      then have a: "(replicate r True @ drop r bs) ! k = bs ! k"
        using k by (simp add: nth_append)
      have "(\<exists>j. k \<le> j \<and> j < length bs \<and> bs ! j) = bs ! k"
      proof
        assume "\<exists>j. k \<le> j \<and> j < length bs \<and> bs ! j"
        then obtain j where j: "k \<le> j" "j < length bs" "bs ! j" by blast
        then have "j \<le> r" using rmax by simp
        then have "j = k" using j False by simp
        then show "bs ! k" using j by simp
      next
        assume "bs ! k"
        then show "\<exists>j. k \<le> j \<and> j < length bs \<and> bs ! j" using k by blast
      qed
      then show ?thesis using a k by simp
    qed
  qed
  then show ?thesis using True by (simp add: set_nonzero r_def Let_def)
qed

lemma argsort_props:
  "length (argsort qs) = length qs" "set (argsort qs) = {0..<length qs}" "distinct (argsort qs)"
  by (simp_all add: argsort_def)

lemma argsort_nth_less: "k < length qs \<Longrightarrow> argsort qs ! k < length qs"
  using argsort_props(1,2) [of qs] nth_mem [of k "argsort qs"] by auto

lemma argsort_sorted_Fin: "sorted (map ((!) ps) (argsort (map Fin ps)))"
proof -
  let ?f = "\<lambda>i. fl_key (map Fin ps ! i)"
  have "sorted (map ?f (argsort (map Fin ps)))"
    unfolding argsort_def by (rule sorted_sort_key)
  then have "sorted_wrt (\<lambda>a b. ?f a \<le> ?f b) (argsort (map Fin ps))"
    by (simp add: sorted_map)
  then have "sorted_wrt (\<lambda>a b. ps ! a \<le> ps ! b) (argsort (map Fin ps))"
  proof (rule sorted_wrt_mono_rel [rotated])
    fix a b
    assume "a \<in> set (argsort (map Fin ps))" "b \<in> set (argsort (map Fin ps))" "?f a \<le> ?f b"
    then show "ps ! a \<le> ps ! b" by (simp add: argsort_props(2))
  qed
  then show ?thesis by (simp add: sorted_map)
qed


lemma fdrcorrection_Fin:
  fixes ps :: "real list" and alpha :: real
  defines "m \<equiv> length ps"
  defines "sortind \<equiv> argsort (map Fin ps)"
  defines "sp \<equiv> map ((!) ps) sortind"
  defines "raw \<equiv> map (\<lambda>k. sp ! k / (real (k + 1) / real m)) [0..<m]"
  shows "fdrcorrection (map Fin ps) alpha
    = (scatter sortind
         (map (\<lambda>k. \<exists>j. k \<le> j \<and> j < m \<and> sp ! j \<le> real (j + 1) / real m * alpha) [0..<m]),
       map Fin (scatter sortind
         (map (\<lambda>c. if c > 1 then 1 else c) (rev (accumulate min (rev raw))))))"
proof -
  have len: "length sortind = m" by (simp add: sortind_def m_def argsort_props)
  have lsp: "length sp = m" by (simp add: sp_def len)
  have e1: "map ((!) (map Fin ps)) sortind = map Fin sp"
    unfolding sp_def sortind_def using argsort_props(2) [of "map Fin ps"] by simp
  have e2: "length (map Fin sp) = m" by (simp add: lsp)
  define ecdf where "ecdf = map (\<lambda>k. real k / real m) [1..<m + 1]"
  have ecdf: "ecdf = map (\<lambda>k. real (k + 1) / real m) [0..<m]"
  proof -
    have "[1..<m + 1] = map Suc [0..<m]"
      using map_Suc_upt [of 0 m] by (simp del: upt_Suc)
    then show ?thesis unfolding ecdf_def by (simp add: comp_def add.commute del: upt_Suc)
  qed
  define reject0 where "reject0 = map2 (\<lambda>p e. fl_le_real p (e * alpha)) (map Fin sp) ecdf"
  have r0: "reject0 = map (\<lambda>j. sp ! j \<le> real (j + 1) / real m * alpha) [0..<m]"
    unfolding reject0_def ecdf using lsp by (intro nth_equalityI) simp_all
  have lr0: "length reject0 = m" by (simp add: r0)
  have rej: "(if True \<in> set reject0
       then replicate (Max (set (nonzero reject0))) True @ drop (Max (set (nonzero reject0))) reject0
       else reject0)
     = map (\<lambda>k. \<exists>j. k \<le> j \<and> j < m \<and> sp ! j \<le> real (j + 1) / real m * alpha) [0..<m]"
    unfolding reject_step_up [unfolded Let_def] lr0 by (intro nth_equalityI) (auto simp: r0)
  have rawfl: "map2 fl_div_real (map Fin sp) ecdf = map Fin raw"
    unfolding ecdf raw_def using lsp by (intro nth_equalityI) simp_all
  have acc: "rev (accumulate fl_minimum (rev (map Fin raw)))
      = map Fin (rev (accumulate min (rev raw)))"
    by (simp add: rev_map accumulate_map [of fl_minimum Fin min])
  have cap: "map (\<lambda>p. if fl_gt_real p 1 then Fin 1 else p) (map Fin cs)
      = map Fin (map (\<lambda>c. if c > 1 then 1 else c) cs)" for cs
    by simp
  have "fdrcorrection (map Fin ps) alpha
    = (scatter sortind
         (map (\<lambda>k. \<exists>j. k \<le> j \<and> j < m \<and> sp ! j \<le> real (j + 1) / real m * alpha) [0..<m]),
       scatter sortind (map Fin
         (map (\<lambda>c. if c > 1 then 1 else c) (rev (accumulate min (rev raw))))))"
    unfolding fdrcorrection_def Let_def sortind_def [symmetric]
    unfolding e1 e2 ecdf_def [symmetric]
    unfolding reject0_def [symmetric] rej rawfl acc cap ..
  then show ?thesis by (simp only: scatter_map [of sortind Fin])
qed


lemma rev_accumulate_min_le_iff:
  fixes raw :: "real list"
  assumes "k < length raw"
  shows "(rev (accumulate min (rev raw)) ! k \<le> a) = (\<exists>j. k \<le> j \<and> j < length raw \<and> raw ! j \<le> a)"
proof -
  let ?m = "length raw"
  have "rev (accumulate min (rev raw)) ! k = accumulate min (rev raw) ! (?m - Suc k)"
    using assms by (simp add: rev_nth length_accumulate)
  moreover have "(accumulate min (rev raw) ! (?m - Suc k) \<le> a)
      = (\<exists>j'\<le>?m - Suc k. rev raw ! j' \<le> a)"
    using assms by (intro accumulate_min_le_iff) simp
  moreover have "(\<exists>j'\<le>?m - Suc k. rev raw ! j' \<le> a)
      = (\<exists>j. k \<le> j \<and> j < ?m \<and> raw ! j \<le> a)"
  proof
    assume "\<exists>j'\<le>?m - Suc k. rev raw ! j' \<le> a"
    then obtain j' where j': "j' \<le> ?m - Suc k" "rev raw ! j' \<le> a" by blast
    then have "raw ! (?m - Suc j') \<le> a" using assms by (simp add: rev_nth)
    moreover have "k \<le> ?m - Suc j'" "?m - Suc j' < ?m" using j' assms by linarith+
    ultimately show "\<exists>j. k \<le> j \<and> j < ?m \<and> raw ! j \<le> a" by blast
  next
    assume "\<exists>j. k \<le> j \<and> j < ?m \<and> raw ! j \<le> a"
    then obtain j where j: "k \<le> j" "j < ?m" "raw ! j \<le> a" by blast
    have "rev raw ! (?m - Suc j) = raw ! j" using j by (simp add: rev_nth)
    moreover have "?m - Suc j \<le> ?m - Suc k" using j by linarith
    ultimately show "\<exists>j'\<le>?m - Suc k. rev raw ! j' \<le> a" using j by metis
  qed
  ultimately show ?thesis by simp
qed

lemma rev_accumulate_min_mono:
  fixes raw :: "real list"
  assumes "Suc k < length raw"
  shows "rev (accumulate min (rev raw)) ! k \<le> rev (accumulate min (rev raw)) ! Suc k"
proof -
  let ?c = "rev (accumulate min (rev raw))"
  have "\<exists>j. Suc k \<le> j \<and> j < length raw \<and> raw ! j \<le> ?c ! Suc k"
    using rev_accumulate_min_le_iff [of "Suc k" raw "?c ! Suc k"] assms by simp
  then have "\<exists>j. k \<le> j \<and> j < length raw \<and> raw ! j \<le> ?c ! Suc k"
    using Suc_leD by blast
  then show ?thesis
    using rev_accumulate_min_le_iff [of k raw "?c ! Suc k"] assms by simp
qed

lemma fdr_ranks:
  fixes ps :: "real list" and alpha :: real
  defines "m \<equiv> length ps"
  defines "sortind \<equiv> argsort (map Fin ps)"
  defines "pass \<equiv> \<lambda>j. ps ! (sortind ! j) \<le> real (j + 1) / real m * alpha"
  shows "\<exists>rej cs. fdrcorrection (map Fin ps) alpha
             = (scatter sortind rej, map Fin (scatter sortind cs))
         \<and> length rej = m \<and> length cs = m
         \<and> (\<forall>k<m. rej ! k = (\<exists>j. k \<le> j \<and> j < m \<and> pass j))
         \<and> (\<forall>k. Suc k < m \<longrightarrow> cs ! k \<le> cs ! Suc k)
         \<and> (alpha < 1 \<longrightarrow> (\<forall>k<m. (cs ! k \<le> alpha) = (\<exists>j. k \<le> j \<and> j < m \<and> pass j)))"
proof -
  define sp where "sp = map ((!) ps) sortind"
  define raw where "raw = map (\<lambda>k. sp ! k / (real (k + 1) / real m)) [0..<m]"
  define rej where
    "rej = map (\<lambda>k. \<exists>j. k \<le> j \<and> j < m \<and> sp ! j \<le> real (j + 1) / real m * alpha) [0..<m]"
  define c where "c = rev (accumulate min (rev raw))"
  define cs where "cs = map (\<lambda>c. if c > 1 then 1 else c :: real) c"
  have len: "length sortind = m" by (simp add: sortind_def m_def argsort_props)
  have sp: "\<And>j. j < m \<Longrightarrow> sp ! j = ps ! (sortind ! j)" by (simp add: sp_def len)
  have lraw: "length raw = m" by (simp add: raw_def)
  have lc: "length c = m" by (simp add: c_def length_accumulate lraw)
  have eq: "fdrcorrection (map Fin ps) alpha
             = (scatter sortind rej, map Fin (scatter sortind cs))"
    using fdrcorrection_Fin [of ps alpha]
    by (simp only: rej_def cs_def c_def raw_def sp_def sortind_def m_def)
  have r: "\<forall>k<m. rej ! k = (\<exists>j. k \<le> j \<and> j < m \<and> pass j)"
    using sp by (auto simp: rej_def pass_def)
  have mono: "\<forall>k. Suc k < m \<longrightarrow> cs ! k \<le> cs ! Suc k"
  proof (intro allI impI)
    fix k assume k: "Suc k < m"
    have "c ! k \<le> c ! Suc k"
      unfolding c_def using k lraw by (intro rev_accumulate_min_mono) simp
    then show "cs ! k \<le> cs ! Suc k" using k lc by (simp add: cs_def)
  qed
  have thr: "alpha < 1 \<longrightarrow> (\<forall>k<m. (cs ! k \<le> alpha) = (\<exists>j. k \<le> j \<and> j < m \<and> pass j))"
  proof (intro allI impI)
    fix k assume a: "alpha < 1" and k: "k < m"
    have "(cs ! k \<le> alpha) = (c ! k \<le> alpha)"
      using a k lc by (simp add: cs_def)
    also have "\<dots> = (\<exists>j. k \<le> j \<and> j < m \<and> raw ! j \<le> alpha)"
      unfolding c_def using rev_accumulate_min_le_iff [of k raw alpha] k lraw by simp
    also have "\<dots> = (\<exists>j. k \<le> j \<and> j < m \<and> pass j)"
    proof -
      have "(raw ! j \<le> alpha) = pass j" if "j < m" for j
      proof -
        have "0 < real (j + 1) / real m" using that by simp
        then have "(sp ! j / (real (j + 1) / real m) \<le> alpha)
            = (sp ! j \<le> alpha * (real (j + 1) / real m))"
          by (rule pos_divide_le_eq)
        then show ?thesis using that sp [OF that]
          by (simp add: raw_def pass_def mult.commute)
      qed
      then show ?thesis by auto
    qed
    finally show "(cs ! k \<le> alpha) = (\<exists>j. k \<le> j \<and> j < m \<and> pass j)" .
  qed
  have "length rej = m" "length cs = m" by (simp_all add: rej_def cs_def lc)
  then show ?thesis using eq r mono thr by blast
qed


lemma scatter_const:
  assumes "distinct idx" "length idx = length xs" "set idx = {0..<length xs}"
    and "\<forall>k<length xs. xs ! k = c"
  shows "scatter idx xs = replicate (length xs) c"
proof (intro nth_equalityI)
  show "length (scatter idx xs) = length (replicate (length xs) c)"
    by (simp add: scatter_length)
next
  fix i assume "i < length (scatter idx xs)"
  then have i: "i < length xs" by (simp add: scatter_length)
  then have "i \<in> set idx" using assms(3) by simp
  then obtain k where k: "k < length idx" "idx ! k = i" by (auto simp: in_set_conv_nth)
  have "scatter idx xs ! (idx ! k) = xs ! k"
    using assms(1,2) k i by (intro scatter_nth) simp_all
  then show "scatter idx xs ! i = replicate (length xs) c ! i"
    using k i assms(2,4) by simp
qed


text \<open>
  C3: for every volume of finite p-values and every \<open>alpha\<close> in \<open>(0, 1)\<close>, the correction
  is the Benjamini-Hochberg step-up procedure over the flattened volume.  The sorting
  index is a permutation of the voxel indices along which the p-values ascend; the
  voxel of rank \<open>k\<close> is marked significant exactly when some rank passes the test
  \<open>p \<le> (rank / m) * alpha\<close> and \<open>k\<close> is at most the largest rank that passes; the corrected
  p-values are finite and do not decrease along the ranks; the mask marks exactly the
  voxels whose corrected p-value is at most \<open>alpha\<close>; reshaping keeps the shape of the
  input and puts at voxel \<open>(i, j, k)\<close> the entry of the flat result at the position the
  voxel had in the flattened input; p-values all equal to 1 give an all-false mask, and
  p-values all at most \<open>alpha / m\<close> (in particular all 0) give an all-true mask.
  Floating-point arithmetic is idealised as exact real arithmetic.
\<close>

theorem benjamini_hochberg_correction:
  fixes ps :: "real list" and s :: shape3 and alpha :: real
  assumes a0: "0 < alpha" and a1: "alpha < 1"
  defines "p \<equiv> \<lparr>shape = s, vals = map Fin ps\<rparr>"
  defines "m \<equiv> length ps"
  defines "sortind \<equiv> argsort (flatten p)"
  defines "rejected \<equiv> fst (fdrcorrection (flatten p) alpha)"
  defines "corrected \<equiv> snd (fdrcorrection (flatten p) alpha)"
  defines "passing \<equiv> {j. j < m \<and> ps ! (sortind ! j) \<le> real (j + 1) / real m * alpha}"
  shows "distinct sortind \<and> set sortind = {0..<m} \<and> sorted (map ((!) ps) sortind)
       \<and> length rejected = m
       \<and> (\<forall>k<m. rejected ! (sortind ! k) = (passing \<noteq> {} \<and> k \<le> Max passing))
       \<and> (\<exists>qs. corrected = map Fin qs \<and> length qs = m
              \<and> (\<forall>k. Suc k < m \<longrightarrow> qs ! (sortind ! k) \<le> qs ! (sortind ! Suc k))
              \<and> (\<forall>i<m. rejected ! i = (qs ! i \<le> alpha)))
       \<and> shape (reshape rejected (shape p)) = shape p
       \<and> shape (reshape corrected (shape p)) = shape p
       \<and> (\<forall>i j k. at3 (reshape rejected (shape p)) i j k = rejected ! ravel (shape p) i j k
              \<and> at3 (reshape corrected (shape p)) i j k = corrected ! ravel (shape p) i j k
              \<and> at3 p i j k = flatten p ! ravel (shape p) i j k)
       \<and> ((\<forall>x\<in>set ps. x = 1) \<longrightarrow> rejected = replicate m False)
       \<and> ((\<forall>x\<in>set ps. x \<le> alpha / real m) \<longrightarrow> rejected = replicate m True)"
proof -
  define pass where "pass = (\<lambda>j. ps ! (sortind ! j) \<le> real (j + 1) / real m * alpha)"
  have fl: "flatten p = map Fin ps" by (simp add: flatten_def p_def)
  have si: "sortind = argsort (map Fin ps)" by (simp add: sortind_def fl)
  have len: "length sortind = m" and set: "set sortind = {0..<m}" and dist: "distinct sortind"
    by (simp_all add: si m_def argsort_props)
  have nth_lt: "\<And>k. k < m \<Longrightarrow> sortind ! k < m"
    unfolding si m_def using argsort_nth_less [of _ "map Fin ps"] by simp
  have "\<exists>rej cs. fdrcorrection (map Fin ps) alpha
             = (scatter sortind rej, map Fin (scatter sortind cs))
         \<and> length rej = m \<and> length cs = m
         \<and> (\<forall>k<m. rej ! k = (\<exists>j. k \<le> j \<and> j < m \<and> pass j))
         \<and> (\<forall>k. Suc k < m \<longrightarrow> cs ! k \<le> cs ! Suc k)
         \<and> (alpha < 1 \<longrightarrow> (\<forall>k<m. (cs ! k \<le> alpha) = (\<exists>j. k \<le> j \<and> j < m \<and> pass j)))"
    unfolding si m_def pass_def by (rule fdr_ranks)
  then obtain rej cs where
    eq: "fdrcorrection (map Fin ps) alpha = (scatter sortind rej, map Fin (scatter sortind cs))"
    and lrej: "length rej = m" and lcs: "length cs = m"
    and rej: "\<forall>k<m. rej ! k = (\<exists>j. k \<le> j \<and> j < m \<and> pass j)"
    and mono: "\<forall>k. Suc k < m \<longrightarrow> cs ! k \<le> cs ! Suc k"
    and thr0: "alpha < 1 \<longrightarrow> (\<forall>k<m. (cs ! k \<le> alpha) = (\<exists>j. k \<le> j \<and> j < m \<and> pass j))"
    by (elim exE conjE) (rule that; assumption)
  have thr: "\<forall>k<m. (cs ! k \<le> alpha) = (\<exists>j. k \<le> j \<and> j < m \<and> pass j)"
    using thr0 a1 by (rule mp)
  have R: "rejected = scatter sortind rej" and C: "corrected = map Fin (scatter sortind cs)"
    by (simp_all add: rejected_def corrected_def fl eq)
  have Rn: "\<And>k. k < m \<Longrightarrow> rejected ! (sortind ! k) = rej ! k"
    unfolding R using dist len lrej nth_lt by (intro scatter_nth) simp_all
  have Cn: "\<And>k. k < m \<Longrightarrow> scatter sortind cs ! (sortind ! k) = cs ! k"
    using dist len lcs nth_lt by (intro scatter_nth) simp_all
  have passing: "passing = {j. j < m \<and> pass j}" by (simp add: passing_def pass_def)
  have fin: "finite passing" by (simp add: passing)
  note c1 = dist set
  have c2: "sorted (map ((!) ps) sortind)"
    unfolding si by (rule argsort_sorted_Fin)
  have c3: "length rejected = m" by (simp add: R scatter_length lrej)
  have ex_max: "(\<exists>j. k \<le> j \<and> j < m \<and> pass j) = (passing \<noteq> {} \<and> k \<le> Max passing)" for k
  proof
    assume "\<exists>j. k \<le> j \<and> j < m \<and> pass j"
    then obtain j where j: "k \<le> j" "j \<in> passing" by (auto simp: passing)
    then have "j \<le> Max passing" using fin by simp
    then show "passing \<noteq> {} \<and> k \<le> Max passing" using j by auto
  next
    assume h: "passing \<noteq> {} \<and> k \<le> Max passing"
    then have "Max passing \<in> passing" using fin by simp
    moreover have "\<And>x. x \<in> passing \<Longrightarrow> x < m \<and> pass x" by (simp add: passing)
    ultimately have "Max passing < m \<and> pass (Max passing)" by blast
    then show "\<exists>j. k \<le> j \<and> j < m \<and> pass j" using h by blast
  qed
  have c4: "\<forall>k<m. rejected ! (sortind ! k) = (passing \<noteq> {} \<and> k \<le> Max passing)"
    using Rn rej ex_max by simp
  have c5: "\<exists>qs. corrected = map Fin qs \<and> length qs = m
              \<and> (\<forall>k. Suc k < m \<longrightarrow> qs ! (sortind ! k) \<le> qs ! (sortind ! Suc k))
              \<and> (\<forall>i<m. rejected ! i = (qs ! i \<le> alpha))"
  proof (intro exI [of _ "scatter sortind cs"] conjI allI impI)
    show "corrected = map Fin (scatter sortind cs)" by (rule C)
    show "length (scatter sortind cs) = m" by (simp add: scatter_length lcs)
  next
    fix k assume k: "Suc k < m"
    then show "scatter sortind cs ! (sortind ! k) \<le> scatter sortind cs ! (sortind ! Suc k)"
      using Cn [of k] Cn [of "Suc k"] mono by simp
  next
    fix i assume "i < m"
    then have "i \<in> set sortind" using set by simp
    then obtain k where k: "k < m" "sortind ! k = i"
      using len by (auto simp: in_set_conv_nth)
    show "rejected ! i = (scatter sortind cs ! i \<le> alpha)"
      using Rn [OF k(1)] Cn [OF k(1)] rej thr k by simp
  qed
  have c6: "\<forall>i j k. at3 (reshape rejected (shape p)) i j k = rejected ! ravel (shape p) i j k
              \<and> at3 (reshape corrected (shape p)) i j k = corrected ! ravel (shape p) i j k
              \<and> at3 p i j k = flatten p ! ravel (shape p) i j k"
    by (simp add: at3_def reshape_def flatten_def)
  have c7: "(\<forall>x\<in>set ps. x = 1) \<longrightarrow> rejected = replicate m False"
  proof
    assume one: "\<forall>x\<in>set ps. x = 1"
    have "\<not> pass j" if "j < m" for j
    proof -
      have "ps ! (sortind ! j) = 1" using one nth_lt [OF that] by (simp add: m_def)
      moreover have "real (j + 1) / real m \<le> 1" using that by simp
      then have "real (j + 1) / real m * alpha \<le> 1 * alpha"
        using a0 by (intro mult_right_mono) simp_all
      then have "real (j + 1) / real m * alpha < 1"
        using a1 by simp
      ultimately show ?thesis by (simp add: pass_def)
    qed
    then have "\<forall>k<length rej. rej ! k = False" using rej lrej by auto
    then have "scatter sortind rej = replicate (length rej) False"
      using dist len lrej set by (intro scatter_const) simp_all
    then show "rejected = replicate m False" by (simp add: R lrej)
  qed
  have c8: "(\<forall>x\<in>set ps. x \<le> alpha / real m) \<longrightarrow> rejected = replicate m True"
  proof
    assume small: "\<forall>x\<in>set ps. x \<le> alpha / real m"
    have "pass j" if "j < m" for j
    proof -
      have "ps ! (sortind ! j) \<le> alpha / real m" using small nth_lt [OF that] by (simp add: m_def)
      moreover have "alpha / real m \<le> real (j + 1) / real m * alpha"
      proof -
        have "alpha * 1 \<le> alpha * real (j + 1)" using a0 by (intro mult_left_mono) simp_all
        then have "alpha / real m \<le> alpha * real (j + 1) / real m"
          by (intro divide_right_mono) simp_all
        then show ?thesis by (simp add: mult.commute)
      qed
      ultimately show ?thesis by (simp add: pass_def)
    qed
    then have "\<forall>k<length rej. rej ! k = True" using rej lrej by auto
    then have "scatter sortind rej = replicate (length rej) True"
      using dist len lrej set by (intro scatter_const) simp_all
    then show "rejected = replicate m True" by (simp add: R lrej)
  qed
  have c9: "shape (reshape rejected (shape p)) = shape p"
    "shape (reshape corrected (shape p)) = shape p"
    by (simp_all add: reshape_def)
  show ?thesis
    by (intro conjI c1 c2 c3 c4 c5 c6 c7 c8 c9)
qed


theorem benjamini_hochberg_correction_witness:
  "(0 :: real) < 1 / 20 \<and> (1 :: real) / 20 < 1
   \<and> argsort (flatten \<lparr>shape = (4, 1, 1), vals = map Fin [1 / 100, 1 / 25, 3 / 100, 1 / 2]\<rparr>)
       = [0, 2, 1, 3]
   \<and> fdrcorrection
         (flatten \<lparr>shape = (4, 1, 1), vals = map Fin [1 / 100, 1 / 25, 3 / 100, 1 / 2]\<rparr>) (1 / 20)
       = ([True, False, False, False], [Fin (1 / 25), Fin (4 / 75), Fin (4 / 75), Fin (1 / 2)])
   \<and> length (fst (fdrcorrection
         (flatten \<lparr>shape = (4, 1, 1), vals = map Fin [1 / 100, 1 / 25, 3 / 100, 1 / 2]\<rparr>) (1 / 20)))
       = 4"
proof -
  have h1: "(0 :: real) < 1 / 20" and h2: "(1 :: real) / 20 < 1" by simp_all
  have a: "argsort (flatten \<lparr>shape = (4, 1, 1), vals = map Fin [1 / 100, 1 / 25, 3 / 100, 1 / 2]\<rparr>)
       = [0, 2, 1, 3]"
    by code_simp
  have f: "fdrcorrection
         (flatten \<lparr>shape = (4, 1, 1), vals = map Fin [1 / 100, 1 / 25, 3 / 100, 1 / 2]\<rparr>) (1 / 20)
       = ([True, False, False, False], [Fin (1 / 25), Fin (4 / 75), Fin (4 / 75), Fin (1 / 2)])"
    by code_simp
  from benjamini_hochberg_correction
         [OF h1 h2, where ps = "[1 / 100, 1 / 25, 3 / 100, 1 / 2]" and s = "(4, 1, 1)"]
  have "length (fst (fdrcorrection
         (flatten \<lparr>shape = (4, 1, 1), vals = map Fin [1 / 100, 1 / 25, 3 / 100, 1 / 2]\<rparr>) (1 / 20)))
       = length [1 / 100, 1 / 25, 3 / 100, 1 / 2 :: real]"
    by (elim conjE)
  then show ?thesis using h1 h2 a f by simp
qed

section \<open>Properties of the projector\<close>

text \<open>
  C4: the signed-difference projection takes, at every output pixel, the masked mean
  difference at the index along the axis where its absolute value is largest, also when
  that index is 0.  The loop of \<open>visualize_single_projection\<close> writes 0 whenever the
  index is 0: on a ray \<open>[5, 1]\<close> along axis 0, all significant, the largest absolute
  value sits at index 0 and the pixel should be 5, but the code yields 0.
\<close>

theorem projection_drops_argmax_zero:
  "visualize_single_projection
     \<lparr>shape = (2, 1, 1), vals = [True, True]\<rparr> \<lparr>shape = (2, 1, 1), vals = [5, 1]\<rparr> 0
   = Inr [[0]]"
  by code_simp

end
